theory Spec2Isabelle
  imports Complex_Main
begin

section \<open>Curious Snake: the pool-based active learner of base\_learner.py\<close>

text \<open>
  A shallow embedding of class \<open>BaseLearner\<close> and of \<open>_arg_max\<close>. Python exceptions
  are values of type \<open>error\<close>; a method that mutates the learner takes the learner and
  returns it, also when it raises (the caller that catches the exception sees the
  attributes as they were left).
\<close>

subsection \<open>Errors\<close>

datatype error =
    Exception string  \<comment> \<open>\<open>raise Exception, "..."\<close>\<close>
  | IndexError        \<comment> \<open>a list read out of range\<close>
  | ValueError        \<comment> \<open>\<open>max([])\<close>\<close>

subsection \<open>Examples, datasets, models\<close>

text \<open>
  An example of the pool, with the attributes base\_learner.py reads and writes:
  \<open>inst.id\<close>, \<open>inst.point\<close>, \<open>inst.label\<close> (the true label), \<open>inst.lbl\<close> (the label in
  use) and \<open>inst.has_synthetic_label\<close>.
\<close>

record 'x inst =
  id_of :: int
  point :: 'x
  label :: int
  lbl :: int
  has_synthetic_label :: bool

text \<open>A dataset is its list \<open>instances\<close>.\<close>

type_synonym 'x dataset = "'x inst list"

text \<open>
  A trained model is an object with the three methods the learner calls on it:
  \<open>m.predict(x)\<close>, \<open>m.compute_cos_between_examples(x, y)\<close> and
  \<open>m.compute_dist_between_examples(x, y)\<close>. The scalar type \<open>'v\<close> stands for Python's
  floats; nothing is assumed about its arithmetic.
\<close>

record ('x, 'v) model =
  predict :: "'x \<Rightarrow> int"
  compute_cos_between_examples :: "'x \<Rightarrow> 'x \<Rightarrow> 'v"
  compute_dist_between_examples :: "'x \<Rightarrow> 'x \<Rightarrow> 'v"

subsection \<open>Prediction aggregation\<close>

text \<open>
  \<open>_arg_max(ls, f)\<close>: the loop runs \<open>i\<close> over \<open>range(len(ls) - 1)\<close>, compares
  \<open>f(ls[i+1])\<close> with \<open>max_val\<close> and, on a strictly larger value, stores \<open>i\<close> in
  \<open>return_index\<close>.
\<close>

fun arg_max_loop :: "'a list \<Rightarrow> ('a \<Rightarrow> 'b::ord) \<Rightarrow> nat list \<Rightarrow> nat \<Rightarrow> 'b \<Rightarrow> nat" where
  "arg_max_loop ls f [] return_index max_val = return_index"
| "arg_max_loop ls f (i # is) return_index max_val =
     (if f (ls ! (i + 1)) > max_val
      then arg_max_loop ls f is i (f (ls ! (i + 1)))
      else arg_max_loop ls f is return_index max_val)"

definition arg_max :: "'a list \<Rightarrow> ('a \<Rightarrow> 'b::ord) \<Rightarrow> error + nat" where
  "arg_max ls f =
     (case ls of
        [] \<Rightarrow> Inl IndexError
      | x # _ \<Rightarrow> Inr (arg_max_loop ls f [0 ..< length ls - 1] 0 (f x)))"

text \<open>\<open>xs[i]\<close> for an index that is not negative.\<close>

definition getitem :: "'a list \<Rightarrow> nat \<Rightarrow> error + 'a" where
  "getitem xs i = (if i < length xs then Inr (xs ! i) else Inl IndexError)"

text \<open>The message of the exception both aggregation policies raise without models.\<close>

definition no_models :: error where
  "no_models = Exception ''No models have been initialized.''"

text \<open>
  \<open>majority_predict(X)\<close> on a learner whose attribute \<open>models\<close> is \<open>ms\<close> (\<open>None\<close> or a
  list). Python does not fix the order in which \<open>list(set(votes))\<close> enumerates the
  distinct votes; the order is the parameter \<open>list_set\<close>, which maps \<open>votes\<close> to
  \<open>list(set(votes))\<close>. \<open>zip\<close> stops at the shorter of \<open>models\<close> and \<open>X\<close>.
\<close>

definition majority_predict ::
  "(int list \<Rightarrow> int list) \<Rightarrow> ('x, 'v) model list option \<Rightarrow> 'x list \<Rightarrow> error + int" where
  "majority_predict list_set ms X =
     (case ms of
        None \<Rightarrow> Inl no_models
      | Some [] \<Rightarrow> Inl no_models
      | Some (m0 # ms') \<Rightarrow>
          (let votes = map (\<lambda>(m, x). predict m x) (zip (m0 # ms') X);
               vote_set = list_set votes;
               count_in_list = (\<lambda>x. count_list votes x)
           in case arg_max vote_set count_in_list of
                Inl e \<Rightarrow> Inl e
              | Inr i \<Rightarrow> getitem vote_set i))"

text \<open>\<open>cautious_predict(X)\<close>: the maximum of the predictions; \<open>max([])\<close> raises.\<close>

definition cautious_predict :: "('x, 'v) model list option \<Rightarrow> 'x list \<Rightarrow> error + int" where
  "cautious_predict ms X =
     (case ms of
        None \<Rightarrow> Inl no_models
      | Some [] \<Rightarrow> Inl no_models
      | Some (m0 # ms') \<Rightarrow>
          (case map (\<lambda>(m, x). predict m x) (zip (m0 # ms') X) of
             [] \<Rightarrow> Inl ValueError
           | p # ps \<Rightarrow> Inr (fold max ps p)))"

text \<open>
  The order in which CPython 2 enumerates a set of at most five small integers (or of
  floats with integral values) whose hashes fall into different slots of the initial
  table of eight slots: by slot, the slot being the hash modulo 8, and the hash of an
  integer being the integer itself, but \<open>-2\<close> for \<open>-1\<close>. So \<open>list(set([-1, -1, 1]))\<close>
  is \<open>[1, -1]\<close>. Where two hashes fall into the same slot CPython probes for another
  slot and the order is not the one below: the definition is meant for votes without
  such a collision only, as the votes \<open>1\<close> and \<open>-1\<close> (slots 1 and 6).
\<close>

definition py_hash :: "int \<Rightarrow> int" where
  "py_hash n = (if n = - 1 then - 2 else n)"

definition cpython_list_set :: "int list \<Rightarrow> int list" where
  "cpython_list_set votes = sort_key (\<lambda>v. py_hash v mod 8) (remdups votes)"

subsection \<open>The example store\<close>

text \<open>
  The class \<open>dataset\<close> of dataset.py is not among the sources; the methods
  base\_learner.py calls on it are modelled from the spec's Example Store contract.
  Which class an example belongs to (minority or majority) is decided by dataset.py:
  it is the parameter \<open>minority\<close> of the functions below.
\<close>

text \<open>
  Modelled from the spec: \<open>dataset.remove_instances(ids)\<close>, the contract's
  \<open>remove(identifiers) \<rightarrow> removed items\<close>. The examples with these identifiers leave
  the dataset and are returned; the result is the pair of the removed examples and the
  dataset that is left.
\<close>

definition remove_instances :: "int list \<Rightarrow> 'x dataset \<Rightarrow> 'x inst list \<times> 'x dataset" where
  "remove_instances ids d =
     (filter (\<lambda>i. id_of i \<in> set ids) d, filter (\<lambda>i. id_of i \<notin> set ids) d)"

text \<open>
  Modelled from the spec: \<open>dataset.add_instances(instances)\<close>, the contract's
  \<open>insert(items)\<close>.
\<close>

definition add_instances :: "'x inst list \<Rightarrow> 'x dataset \<Rightarrow> 'x dataset" where
  "add_instances new d = d @ new"

text \<open>
  Modelled from the spec: \<open>dataset.get_instance_ids()\<close>, the contract's
  \<open>all_identifiers() \<rightarrow> sequence\<close>.
\<close>

definition get_instance_ids :: "'x dataset \<Rightarrow> int list" where
  "get_instance_ids d = map id_of d"

text \<open>
  Modelled from the spec: \<open>dataset.number_of_minority_examples()\<close>, the contract's
  \<open>count(class=minority) \<rightarrow> integer\<close>.
\<close>

definition number_of_minority_examples :: "('x inst \<Rightarrow> bool) \<Rightarrow> 'x dataset \<Rightarrow> int" where
  "number_of_minority_examples minority d = int (length (filter minority d))"

text \<open>
  Modelled from the spec: \<open>dataset.number_of_majority_examples()\<close>, the contract's
  \<open>count(class=majority) \<rightarrow> integer\<close>; an example that is not of the minority class is
  of the majority class.
\<close>

definition number_of_majority_examples :: "('x inst \<Rightarrow> bool) \<Rightarrow> 'x dataset \<Rightarrow> int" where
  "number_of_majority_examples minority d = int (length (filter (\<lambda>i. \<not> minority i) d))"

text \<open>
  Modelled from the spec: \<open>dataset.undersample(k)\<close> removes \<open>k\<close> majority-class
  examples and returns them (spec 4.4: the removed identifiers are determined from
  feature space 0's removal). Which ones is a random draw: \<open>draw k ids\<close> is the list of
  identifiers drawn from the identifiers \<open>ids\<close> of the majority examples.
\<close>

definition undersample ::
  "('x inst \<Rightarrow> bool) \<Rightarrow> (int \<Rightarrow> int list \<Rightarrow> int list) \<Rightarrow> int \<Rightarrow> 'x dataset
     \<Rightarrow> 'x inst list \<times> 'x dataset" where
  "undersample minority draw k d =
     remove_instances (draw k (get_instance_ids (filter (\<lambda>i. \<not> minority i) d))) d"

text \<open>
  Modelled from the spec: \<open>dataset.get_samples_and_labels()\<close> followed by
  \<open>svm_problem(labels, samples)\<close>, the training problem of a dataset (spec 3: a model
  is trained on the labeled partition's feature vectors and labels): its labels in use
  and its feature vectors.
\<close>

definition svm_problem :: "'x dataset \<Rightarrow> int list \<times> 'x list" where
  "svm_problem d = (map lbl d, map point d)"

subsection \<open>The learner\<close>

text \<open>
  The attributes of a \<open>BaseLearner\<close> that its methods read and write. \<open>models\<close> is
  \<open>None\<close> or a list; the two caches are dictionaries keyed by a pair of identifiers.
\<close>

record ('x, 'v, 'p) learner =
  params :: "'p list"
  unlabeled_datasets :: "'x dataset list"
  labeled_datasets :: "'x dataset list"
  models :: "('x, 'v) model list option"
  div_hash :: "int \<times> int \<rightharpoonup> 'v"
  dist_hash :: "int \<times> int \<rightharpoonup> 'v"

text \<open>
  A query function is called with the batch size. It returns a list of identifiers or
  nothing (\<open>None\<close>), or raises; it may change the learner (a void strategy labels the
  examples itself).
\<close>

type_synonym ('x, 'v, 'p) query_function =
  "('x, 'v, 'p) learner \<Rightarrow> int \<Rightarrow> (error + int list option) \<times> ('x, 'v, 'p) learner"

text \<open>
  The collaborators outside base\_learner.py, as parameters: the libsvm trainer
  \<open>svm_model(problem, param)\<close> and the default \<open>svm_parameter()\<close>; of dataset.py the
  class of an example, the draw of \<open>undersample\<close> and the two random picks
  \<open>pick_random_minority_instances(k)\<close> and \<open>pick_random_majority_instances(k)\<close>.
\<close>

record ('x, 'v, 'p) env =
  svm_parameter :: 'p
  svm_model :: "int list \<times> 'x list \<Rightarrow> 'p \<Rightarrow> ('x, 'v) model"
  minority :: "'x inst \<Rightarrow> bool"
  draw :: "int \<Rightarrow> int list \<Rightarrow> int list"
  pick_random_minority_instances :: "int \<Rightarrow> 'x dataset \<Rightarrow> error + int list"
  pick_random_majority_instances :: "int \<Rightarrow> 'x dataset \<Rightarrow> error + int list"

text \<open>\<open>base_q_function(k)\<close>, the query function \<open>__init__\<close> assigns.\<close>

definition base_q_function :: "('x, 'v, 'p) query_function" where
  "base_q_function s k = (Inl (Exception ''no query function provided!''), s)"

text \<open>
  A learner object: its attributes and the function its attribute \<open>query_function\<close>
  holds.
\<close>

record ('x, 'v, 'p) BaseLearner =
  self :: "('x, 'v, 'p) learner"
  query_function :: "('x, 'v, 'p) query_function"

text \<open>\<open>__init__(unlabeled_datasets, models)\<close> on a list of datasets.\<close>

definition init ::
  "('x, 'v, 'p) env \<Rightarrow> 'x dataset list \<Rightarrow> ('x, 'v) model list option \<Rightarrow> ('x, 'v, 'p) BaseLearner" where
  "init E unlabeled ms =
     \<lparr> self = \<lparr> params = map (\<lambda>d. svm_parameter E) unlabeled,
                unlabeled_datasets = unlabeled,
                labeled_datasets = map (\<lambda>d. []) unlabeled,
                models = ms,
                div_hash = Map.empty,
                dist_hash = Map.empty \<rparr>,
       query_function = base_q_function \<rparr>"

subsection \<open>Labeling and unlabeling\<close>

text \<open>
  \<open>label_instances_in_all_datasets(inst_ids)\<close>: for every pair of \<open>zip\<close>, the examples
  removed from the unlabeled dataset are added to the labeled one. \<open>zip\<close> stops at the
  shorter list; the datasets beyond stay as they are.
\<close>

definition label_instances_in_all_datasets ::
  "int list \<Rightarrow> ('x, 'v, 'p) learner \<Rightarrow> ('x, 'v, 'p) learner" where
  "label_instances_in_all_datasets inst_ids s =
     (let U = unlabeled_datasets s; L = labeled_datasets s;
          n = min (length U) (length L);
          moved = map (\<lambda>(u, l). (snd (remove_instances inst_ids u),
                                  add_instances (fst (remove_instances inst_ids u)) l)) (zip U L)
      in s\<lparr> unlabeled_datasets := map fst moved @ drop n U,
            labeled_datasets := map snd moved @ drop n L \<rparr>)"

text \<open>\<open>label_all_data()\<close>; \<open>self.unlabeled_datasets[0]\<close> raises on an empty list.\<close>

definition label_all_data :: "('x, 'v, 'p) learner \<Rightarrow> (error + unit) \<times> ('x, 'v, 'p) learner" where
  "label_all_data s =
     (case unlabeled_datasets s of
        [] \<Rightarrow> (Inl IndexError, s)
      | u0 # _ \<Rightarrow> (Inr (), label_instances_in_all_datasets (map id_of u0) s))"

text \<open>\<open>pick_balanced_initial_training_set(k)\<close>.\<close>

definition pick_balanced_initial_training_set ::
  "('x, 'v, 'p) env \<Rightarrow> int \<Rightarrow> ('x, 'v, 'p) learner \<Rightarrow> (error + int list) \<times> ('x, 'v, 'p) learner" where
  "pick_balanced_initial_training_set E k s =
     (case unlabeled_datasets s of
        [] \<Rightarrow> (Inl IndexError, s)
      | u0 # _ \<Rightarrow>
          (case pick_random_minority_instances E k u0 of
             Inl e \<Rightarrow> (Inl e, s)
           | Inr minority_ids_to_label \<Rightarrow>
               (case pick_random_majority_instances E k u0 of
                  Inl e \<Rightarrow> (Inl e, s)
                | Inr majority_ids_to_label \<Rightarrow>
                    (let all_ids_to_label = minority_ids_to_label @ majority_ids_to_label
                     in (Inr all_ids_to_label, label_instances_in_all_datasets all_ids_to_label s)))))"

text \<open>
  The first loop of \<open>unlabel_instances(inst_ids)\<close>. For the position \<open>inst_index\<close> the
  inner loop visits the labeled datasets of \<open>zip\<close> in order and puts the true label back
  at that position; a dataset too short for the position raises, the datasets before
  it already changed.
\<close>

definition revert :: "'x inst \<Rightarrow> 'x inst" where
  "revert i = i\<lparr> lbl := label i, has_synthetic_label := False \<rparr>"

fun revert_at :: "nat \<Rightarrow> 'x dataset list \<Rightarrow> error option \<times> 'x dataset list" where
  "revert_at inst_index [] = (None, [])"
| "revert_at inst_index (d # ds) =
     (if inst_index < length d
      then (case revert_at inst_index ds of
              (e, ds') \<Rightarrow> (e, d[inst_index := revert (d ! inst_index)] # ds'))
      else (Some IndexError, d # ds))"

text \<open>
  The outer loop over \<open>range(len(self.labeled_datasets[0].instances))\<close>; \<open>L\<close> are the
  labeled datasets the inner \<open>zip\<close> reaches, \<open>L ! 0\<close> being \<open>self.labeled_datasets[0]\<close>
  whenever the inner loop runs.
\<close>

fun revert_loop :: "int list \<Rightarrow> 'x inst list \<Rightarrow> nat list \<Rightarrow> 'x dataset list \<Rightarrow> error option \<times> 'x dataset list" where
  "revert_loop inst_ids d0 [] L = (None, L)"
| "revert_loop inst_ids d0 (inst_index # rest) L =
     (if id_of (d0 ! inst_index) \<in> set inst_ids
      then (case revert_at inst_index L of
              (Some e, L') \<Rightarrow> (Some e, L')
            | (None, L') \<Rightarrow> revert_loop inst_ids d0 rest L')
      else revert_loop inst_ids d0 rest L)"

definition unlabel_instances ::
  "int list \<Rightarrow> ('x, 'v, 'p) learner \<Rightarrow> (error + unit) \<times> ('x, 'v, 'p) learner" where
  "unlabel_instances inst_ids s =
     (case labeled_datasets s of
        [] \<Rightarrow> (Inl IndexError, s)
      | d0 # _ \<Rightarrow>
          (let U = unlabeled_datasets s; L = labeled_datasets s;
               n = min (length U) (length L)
           in case revert_loop inst_ids d0 [0 ..< length d0] (take n L) of
                (Some e, L') \<Rightarrow> (Inl e, s\<lparr> labeled_datasets := L' @ drop n L \<rparr>)
              | (None, L') \<Rightarrow>
                  (let L1 = L' @ drop n L;
                       moved = map (\<lambda>(u, l). (add_instances (fst (remove_instances inst_ids l)) u,
                                               snd (remove_instances inst_ids l))) (zip U L1)
                   in (Inr (), s\<lparr> unlabeled_datasets := map fst moved @ drop n U,
                                  labeled_datasets := map snd moved @ drop n L1 \<rparr>))))"

subsection \<open>Undersampling and rebuilding the models\<close>

text \<open>
  \<open>undersample_labeled_datasets(k)\<close>; \<open>k\<close> is \<open>None\<close> when the caller leaves it out, and
  \<open>not k\<close> holds for \<open>None\<close> and for 0. The copies are new lists; the learner itself is
  returned as it was.
\<close>

definition no_labeled_data :: error where
  "no_labeled_data = Exception ''No labeled data has been provided!''"

definition undersample_labeled_datasets ::
  "('x, 'v, 'p) env \<Rightarrow> int option \<Rightarrow> ('x, 'v, 'p) learner
     \<Rightarrow> (error + 'x dataset list) \<times> ('x, 'v, 'p) learner" where
  "undersample_labeled_datasets E k s =
     (case labeled_datasets s of
        [] \<Rightarrow> (Inl no_labeled_data, s)
      | d0 # others \<Rightarrow>
          if length d0 = 0 then (Inl no_labeled_data, s)
          else
            (let k' = (case k of
                         None \<Rightarrow> number_of_majority_examples (minority E) d0
                                   - number_of_minority_examples (minority E) d0
                       | Some k0 \<Rightarrow>
                           if k0 = 0
                           then number_of_majority_examples (minority E) d0
                                  - number_of_minority_examples (minority E) d0
                           else k0);
                 copied_datasets = d0 # others
             in if k' < number_of_majority_examples (minority E) d0 \<and> k' > 0
                then (let removed_instances = fst (undersample (minority E) (draw E) k' d0);
                          removed_instance_nums = map id_of removed_instances
                      in (Inr (snd (undersample (minority E) (draw E) k' d0)
                                # map (\<lambda>d. snd (remove_instances removed_instance_nums d)) others), s))
                else (Inr copied_datasets, s)))"

text \<open>
  \<open>rebuild_models(undersample_first)\<close>: \<open>datasets[0]\<close> in the \<open>print\<close> raises on an
  empty list; then \<open>self.models\<close> is a new list with one model per pair of
  \<open>zip(datasets, self.params)\<close>.
\<close>

definition rebuild_models ::
  "('x, 'v, 'p) env \<Rightarrow> bool \<Rightarrow> ('x, 'v, 'p) learner \<Rightarrow> (error + unit) \<times> ('x, 'v, 'p) learner" where
  "rebuild_models E undersample_first s =
     (case (if undersample_first then undersample_labeled_datasets E None s
            else (Inr (labeled_datasets s), s)) of
        (Inl e, s1) \<Rightarrow> (Inl e, s1)
      | (Inr datasets, s1) \<Rightarrow>
          (case datasets of
             [] \<Rightarrow> (Inl IndexError, s1)
           | _ # _ \<Rightarrow>
               (Inr (), s1\<lparr> models := Some (map (\<lambda>(dataset, param). svm_model E (svm_problem dataset) param)
                                                  (zip datasets (params s1))) \<rparr>)))"

subsection \<open>The active learning loop\<close>

text \<open>
  What \<open>active_learn\<close> itself calls is recorded in a trace, which is not part of the
  program: \<open>Query k\<close> for \<open>self.query_function(k)\<close>, \<open>Label ids\<close> for
  \<open>self.label_instances_in_all_datasets(ids)\<close>, \<open>Rebuild\<close> for \<open>self.rebuild_models()\<close>.
\<close>

datatype event = Query int | Label "int list" | Rebuild

text \<open>
  The body of the \<open>while\<close> loop but for the counter. An empty list and \<open>None\<close> are
  both false in \<open>if example_ids_to_label\<close>. Both \<open>print\<close> statements read
  \<open>self.labeled_datasets[0]\<close>.
\<close>

definition active_learn_body ::
  "('x, 'v, 'p) env \<Rightarrow> ('x, 'v, 'p) query_function \<Rightarrow> int \<Rightarrow> bool
     \<Rightarrow> ('x, 'v, 'p) learner \<Rightarrow> event list
     \<Rightarrow> (error + unit) \<times> ('x, 'v, 'p) learner \<times> event list" where
  "active_learn_body E qf num_to_label_at_each_iteration rebuild_models_at_each_iter s tr =
     (case qf s num_to_label_at_each_iteration of
        (Inl e, s1) \<Rightarrow> (Inl e, s1, tr @ [Query num_to_label_at_each_iteration])
      | (Inr example_ids_to_label, s1) \<Rightarrow>
          (let (s2, tr2) =
                 (case example_ids_to_label of
                    Some (i # is) \<Rightarrow>
                      (label_instances_in_all_datasets (i # is) s1,
                       tr @ [Query num_to_label_at_each_iteration, Label (i # is)])
                  | _ \<Rightarrow> (s1, tr @ [Query num_to_label_at_each_iteration]))
           in if rebuild_models_at_each_iter
              then (case rebuild_models E False s2 of
                      (Inl e, s3) \<Rightarrow> (Inl e, s3, tr2 @ [Rebuild])
                    | (Inr _, s3) \<Rightarrow>
                        (case labeled_datasets s3 of
                           [] \<Rightarrow> (Inl IndexError, s3, tr2 @ [Rebuild])
                         | _ # _ \<Rightarrow> (Inr (), s3, tr2 @ [Rebuild])))
              else (case labeled_datasets s2 of
                      [] \<Rightarrow> (Inl IndexError, s2, tr2)
                    | _ # _ \<Rightarrow> (Inr (), s2, tr2))))"

text \<open>
  The \<open>while\<close> loop: \<open>labeled_so_far\<close> grows by the batch size after every pass. With
  a batch size that is not positive the loop may never end; then the value is \<open>None\<close>.
\<close>

partial_function (option) active_learn_loop ::
  "('x, 'v, 'p) env \<Rightarrow> ('x, 'v, 'p) query_function \<Rightarrow> int \<Rightarrow> int \<Rightarrow> bool \<Rightarrow> int
     \<Rightarrow> ('x, 'v, 'p) learner \<Rightarrow> event list
     \<Rightarrow> ((error + unit) \<times> ('x, 'v, 'p) learner \<times> event list) option" where
  "active_learn_loop E qf num_examples_to_label num_to_label_at_each_iteration
       rebuild_models_at_each_iter labeled_so_far s tr =
     (if labeled_so_far < num_examples_to_label
      then (case active_learn_body E qf num_to_label_at_each_iteration
                    rebuild_models_at_each_iter s tr of
              (Inl e, s', tr') \<Rightarrow> Some (Inl e, s', tr')
            | (Inr _, s', tr') \<Rightarrow>
                active_learn_loop E qf num_examples_to_label num_to_label_at_each_iteration
                  rebuild_models_at_each_iter (labeled_so_far + num_to_label_at_each_iteration) s' tr')
      else Some (Inr (), s, tr))"

text \<open>
  \<open>active_learn(num_examples_to_label, num_to_label_at_each_iteration,
  rebuild_models_at_each_iter)\<close> on a learner object: the loop from
  \<open>labeled_so_far = 0\<close>, then \<open>self.rebuild_models()\<close>.
\<close>

definition active_learn ::
  "('x, 'v, 'p) env \<Rightarrow> ('x, 'v, 'p) BaseLearner \<Rightarrow> int \<Rightarrow> int \<Rightarrow> bool
     \<Rightarrow> ((error + unit) \<times> ('x, 'v, 'p) learner \<times> event list) option" where
  "active_learn E obj num_examples_to_label num_to_label_at_each_iteration rebuild_models_at_each_iter =
     (case active_learn_loop E (query_function obj) num_examples_to_label
             num_to_label_at_each_iteration rebuild_models_at_each_iter 0 (self obj) [] of
        None \<Rightarrow> None
      | Some (Inl e, s', tr') \<Rightarrow> Some (Inl e, s', tr')
      | Some (Inr _, s', tr') \<Rightarrow>
          (case rebuild_models E False s' of
             (r, s'') \<Rightarrow> Some (r, s'', tr' @ [Rebuild])))"

subsection \<open>The caches\<close>

text \<open>
  \<open>_compute_cos(model, x, y)\<close> and \<open>_compute_div(model, data, x)\<close>. Beside the value
  and the learner, each returns the list of the pairs for which it called
  \<open>model.compute_cos_between_examples\<close>, in the order of the calls; the list is not
  part of the program.
\<close>

definition compute_cos ::
  "('x, 'v) model \<Rightarrow> 'x inst \<Rightarrow> 'x inst \<Rightarrow> ('x, 'v, 'p) learner
     \<Rightarrow> 'v \<times> ('x, 'v, 'p) learner \<times> (int \<times> int) list" where
  "compute_cos m x y s =
     (case div_hash s (id_of x, id_of y) of
        None \<Rightarrow>
          (let v = compute_cos_between_examples m (point x) (point y)
           in (v, s\<lparr> div_hash := (div_hash s)((id_of x, id_of y) \<mapsto> v) \<rparr>, [(id_of x, id_of y)]))
      | Some v \<Rightarrow> (v, s, []))"

fun compute_div_loop ::
  "('x, 'v::{zero,plus}) model \<Rightarrow> 'x inst \<Rightarrow> 'x inst list \<Rightarrow> 'v \<Rightarrow> ('x, 'v, 'p) learner
     \<Rightarrow> (int \<times> int) list \<Rightarrow> 'v \<times> ('x, 'v, 'p) learner \<times> (int \<times> int) list" where
  "compute_div_loop m x [] sum_val s calls = (sum_val, s, calls)"
| "compute_div_loop m x (y # ys) sum_val s calls =
     (case div_hash s (id_of x, id_of y) of
        None \<Rightarrow>
          (let v = compute_cos_between_examples m (point x) (point y)
           in compute_div_loop m x ys (sum_val + v)
                (s\<lparr> div_hash := (div_hash s)((id_of x, id_of y) \<mapsto> v) \<rparr>)
                (calls @ [(id_of x, id_of y)]))
      | Some v \<Rightarrow> compute_div_loop m x ys (sum_val + v) s calls)"

definition compute_div ::
  "('x, 'v::{zero,plus}) model \<Rightarrow> 'x dataset \<Rightarrow> 'x inst \<Rightarrow> ('x, 'v, 'p) learner
     \<Rightarrow> 'v \<times> ('x, 'v, 'p) learner \<times> (int \<times> int) list" where
  "compute_div m data x s = compute_div_loop m x data 0 s []"

subsection \<open>Reading a trace; well-formed pools\<close>

text \<open>The batch sizes of the calls of the query function, in order.\<close>

fun queries :: "event list \<Rightarrow> int list" where
  "queries [] = []"
| "queries (Query k # tr) = k # queries tr"
| "queries (e # tr) = queries tr"

text \<open>
  What one selection iteration does to the learner, in the words of the loop's
  description: the query function is applied once with the batch size, the identifiers
  it returns (if any) are labeled in all datasets of the learner it leaves, and the
  models are rebuilt if the flag is set.
\<close>

definition selection_iteration ::
  "('x, 'v, 'p) env \<Rightarrow> ('x, 'v, 'p) query_function \<Rightarrow> int \<Rightarrow> bool
     \<Rightarrow> ('x, 'v, 'p) learner \<Rightarrow> ('x, 'v, 'p) learner" where
  "selection_iteration E qf b flag s =
     (let s1 = snd (qf s b);
          s2 = (case fst (qf s b) of
                  Inr (Some (i # is)) \<Rightarrow> label_instances_in_all_datasets (i # is) s1
                | _ \<Rightarrow> s1)
      in if flag then snd (rebuild_models E False s2) else s2)"

text \<open>
  A pool an active learning run can draw from: there is a feature space, every feature
  space has its unlabeled and its labeled dataset, and every unlabeled dataset holds
  each identifier once and the same identifiers as that of feature space 0.
\<close>

definition pool_ok :: "('x, 'v, 'p) learner \<Rightarrow> bool" where
  "pool_ok s \<longleftrightarrow>
     unlabeled_datasets s \<noteq> []
     \<and> length (labeled_datasets s) = length (unlabeled_datasets s)
     \<and> (\<forall>u \<in> set (unlabeled_datasets s).
           distinct (get_instance_ids u)
           \<and> set (get_instance_ids u) = set (get_instance_ids (hd (unlabeled_datasets s))))"

text \<open>
  From \<open>s\<close> to \<open>s'\<close> every unlabeled dataset has lost \<open>k\<close> examples and every labeled
  dataset has gained \<open>k\<close>.
\<close>

definition moved_by :: "nat \<Rightarrow> ('x, 'v, 'p) learner \<Rightarrow> ('x, 'v, 'p) learner \<Rightarrow> bool" where
  "moved_by k s s' \<longleftrightarrow>
     length (unlabeled_datasets s') = length (unlabeled_datasets s)
     \<and> length (labeled_datasets s') = length (labeled_datasets s)
     \<and> (\<forall>i < length (unlabeled_datasets s).
           length (unlabeled_datasets s' ! i) + k = length (unlabeled_datasets s ! i))
     \<and> (\<forall>i < length (labeled_datasets s).
           length (labeled_datasets s' ! i) = length (labeled_datasets s ! i) + k)"

subsection \<open>The lockstep invariant\<close>

text \<open>
  The datasets of a list hold the same identifier sets: for all feature-space pairs
  \<open>(i, j)\<close>, the identifiers of dataset \<open>i\<close> are those of dataset \<open>j\<close>.
\<close>

definition ids_equal :: "'x dataset list \<Rightarrow> bool" where
  "ids_equal ds \<longleftrightarrow>
     (\<forall>i < length ds. \<forall>j < length ds.
        set (get_instance_ids (ds ! i)) = set (get_instance_ids (ds ! j)))"

text \<open>
  The lockstep invariant: every feature space has its unlabeled and its labeled dataset,
  the labeled datasets hold the same identifier sets, and so do the unlabeled ones.
\<close>

definition lockstep :: "('x, 'v, 'p) learner \<Rightarrow> bool" where
  "lockstep s \<longleftrightarrow>
     length (unlabeled_datasets s) = length (labeled_datasets s)
     \<and> ids_equal (labeled_datasets s)
     \<and> ids_equal (unlabeled_datasets s)"

text \<open>
  One call of a partition-mutating method takes the learner from \<open>s\<close> to \<open>s'\<close>, the
  learner's query function being \<open>qf\<close>. A call that raises counts too: its learner is
  the one the exception leaves behind.
\<close>

inductive mutation ::
  "('x, 'v, 'p) env \<Rightarrow> ('x, 'v, 'p) query_function
     \<Rightarrow> ('x, 'v, 'p) learner \<Rightarrow> ('x, 'v, 'p) learner \<Rightarrow> bool"
  for E qf where
    by_label: "mutation E qf s (label_instances_in_all_datasets inst_ids s)"
  | by_label_all: "mutation E qf s (snd (label_all_data s))"
  | by_unlabel: "mutation E qf s (snd (unlabel_instances inst_ids s))"
  | by_active_learn:
      "active_learn E \<lparr> self = s, query_function = qf \<rparr> N b flag = Some (r, s', tr)
         \<Longrightarrow> mutation E qf s s'"
  | by_pick: "mutation E qf s (snd (pick_balanced_initial_training_set E k s))"

subsection \<open>Concrete inputs\<close>

text \<open>
  A small learner for the worked examples: points and scalars are integers, the trainer
  returns a model that answers with the number of its training examples, the minority
  class is the label \<open>1\<close>, and every random draw takes the first candidates.
\<close>

definition const_model :: "int \<Rightarrow> (int, int) model" where
  "const_model c =
     \<lparr> predict = (\<lambda>x. c),
       compute_cos_between_examples = (\<lambda>x y. c),
       compute_dist_between_examples = (\<lambda>x y. c) \<rparr>"

definition ex_env :: "(int, int, unit) env" where
  "ex_env =
     \<lparr> svm_parameter = (),
       svm_model = (\<lambda>problem param. const_model (int (length (fst problem)))),
       minority = (\<lambda>i. lbl i = 1),
       draw = (\<lambda>k ids. take (nat k) ids),
       pick_random_minority_instances =
         (\<lambda>k d. Inr (take (nat k) (get_instance_ids (filter (\<lambda>i. lbl i = 1) d)))),
       pick_random_majority_instances =
         (\<lambda>k d. Inr (take (nat k) (get_instance_ids (filter (\<lambda>i. lbl i \<noteq> 1) d)))) \<rparr>"

definition mk :: "int \<Rightarrow> int \<Rightarrow> int \<Rightarrow> int inst" where
  "mk n l x = \<lparr> id_of = n, point = x, label = l, lbl = l, has_synthetic_label = False \<rparr>"

text \<open>
  Two feature spaces over the same four examples; example 1 is the only one of the
  minority class.
\<close>

definition ex_pools :: "int dataset list" where
  "ex_pools = [[mk 1 1 10, mk 2 (- 1) 20, mk 3 (- 1) 30, mk 4 (- 1) 40],
               [mk 1 1 11, mk 2 (- 1) 21, mk 3 (- 1) 31, mk 4 (- 1) 41]]"

definition ex_new :: "(int, int, unit) BaseLearner" where
  "ex_new = init ex_env ex_pools None"

text \<open>The same learner with every example labeled.\<close>

definition ex_labeled :: "(int, int, unit) learner" where
  "ex_labeled = label_instances_in_all_datasets [1, 2, 3, 4] (self ex_new)"

text \<open>
  Two query functions: \<open>first_k\<close> returns the first \<open>k\<close> identifiers of the unlabeled
  dataset of feature space 0; \<open>label_first_q\<close> is a void strategy, which labels the first
  unlabeled example itself and returns nothing.
\<close>

definition first_k :: "('x, 'v, 'p) query_function" where
  "first_k s k =
     (case unlabeled_datasets s of
        [] \<Rightarrow> (Inr None, s)
      | u0 # _ \<Rightarrow> (Inr (Some (take (nat k) (get_instance_ids u0))), s))"

definition label_first_q :: "('x, 'v, 'p) query_function" where
  "label_first_q s k =
     (case unlabeled_datasets s of
        [] \<Rightarrow> (Inr None, s)
      | u0 # _ \<Rightarrow> (Inr None, label_instances_in_all_datasets (take 1 (get_instance_ids u0)) s))"

definition ex_first :: "(int, int, unit) BaseLearner" where
  "ex_first = ex_new\<lparr> query_function := first_k \<rparr>"

definition ex_self :: "(int, int, unit) BaseLearner" where
  "ex_self = ex_new\<lparr> query_function := label_first_q \<rparr>"

text \<open>
  The learner \<open>active_learn(5, 2, True)\<close> leaves when the query function is
  \<open>label_first_q\<close>: three examples labeled, one per call of the query function.
\<close>

definition ex_self_done :: "(int, int, unit) learner" where
  "ex_self_done = (self ex_new)\<lparr> unlabeled_datasets := [[mk 4 (- 1) 40], [mk 4 (- 1) 41]],
                                    labeled_datasets := [[mk 1 1 10, mk 2 (- 1) 20, mk 3 (- 1) 30],
                                                         [mk 1 1 11, mk 2 (- 1) 21, mk 3 (- 1) 31]],
                                    models := Some [const_model 3, const_model 3] \<rparr>"

text \<open>The new learner after \<open>_compute_div\<close> has cached two similarities of example 9.\<close>

definition ex_cached :: "(int, int, unit) learner" where
  "ex_cached = (self ex_new)\<lparr> div_hash := [(9, 1) \<mapsto> 3, (9, 2) \<mapsto> 3] \<rparr>"

text \<open>The new learner with examples 2 and 3 labeled: no labeled example is of the minority class.\<close>

definition ex_majority :: "(int, int, unit) learner" where
  "ex_majority = label_instances_in_all_datasets [2, 3] (self ex_new)"

text \<open>The learner \<open>active_learn(3, 2, False)\<close> leaves when the query function is \<open>first_k\<close>.\<close>

definition ex_learned :: "(int, int, unit) learner" where
  "ex_learned = (self ex_new)\<lparr> unlabeled_datasets := [[], []],
                                  labeled_datasets := ex_pools,
                                  models := Some [const_model 4, const_model 4] \<rparr>"

section \<open>Properties\<close>

subsection \<open>Helper lemmas\<close>

lemma arg_max_loop_bound:
  "return_index < n \<Longrightarrow> list_all (\<lambda>i. i < n) is \<Longrightarrow> arg_max_loop ls f is return_index max_val < n"
  by (induction "is" arbitrary: return_index max_val) auto

text \<open>
  \<open>_arg_max\<close> never returns the last index of a list of two or more elements: the
  loop stores \<open>i\<close>, which ranges over \<open>range(len(ls) - 1)\<close>.
\<close>

lemma arg_max_never_last:
  assumes "arg_max ls f = Inr i" "2 \<le> length ls"
  shows "i < length ls - 1"
proof -
  from assms(2) obtain x xs where ls: "ls = x # xs" by (cases ls) auto
  have "arg_max_loop ls f [0 ..< length ls - 1] 0 (f x) < length ls - 1"
    using assms(2) by (intro arg_max_loop_bound) (auto simp: list_all_iff)
  with assms(1) ls show ?thesis by (simp add: arg_max_def)
qed

text \<open>
  On a list of two elements the loop of \<open>_arg_max\<close> runs once, with \<open>i = 0\<close>: whichever
  element is larger, the index returned is 0.
\<close>

lemma arg_max_two: "arg_max [a, b] f = Inr 0"
  by (simp add: arg_max_def)

text \<open>
  So with two distinct votes \<open>majority_predict\<close> returns the one enumerated first,
  whatever the counts.
\<close>

lemma majority_predict_two_values:
  assumes "list_set (map (\<lambda>(m, x). predict m x) (zip (m0 # ms) X)) = [a, b]"
  shows "majority_predict list_set (Some (m0 # ms)) X = Inr a"
  using assms by (simp add: majority_predict_def Let_def arg_max_two getitem_def)

lemma majority_two_one:
  "majority_predict cpython_list_set (Some [const_model 1, const_model 1, const_model (- 1)]) [0, 0, 0]
     = Inr 1"
  by (simp add: majority_predict_def cpython_list_set_def py_hash_def const_model_def
      arg_max_def getitem_def)

subsection \<open>Cache invalidation (C2)\<close>

text \<open>
  C2, as stated: after any call to \<open>rebuild_models\<close> the caches \<open>dist_hash\<close> and
  \<open>div_hash\<close> hold no entry computed with a previous model. This fails. In the learner
  below the similarity of examples 1 and 2 is computed and cached with a model that
  answers 7; \<open>rebuild_models\<close> then installs a model that answers 4; the entry is still
  in \<open>div_hash\<close>, and \<open>_compute_cos\<close> with the new model returns the old 7.
\<close>

theorem rebuild_models_keeps_stale_entry:
  "(let s1 = fst (snd (compute_cos (const_model 7) (mk 1 1 10) (mk 2 (- 1) 20) ex_labeled));
        s2 = snd (rebuild_models ex_env False s1)
    in models s2 = Some [const_model 4, const_model 4]
       \<and> div_hash s2 (1, 2) = Some 7
       \<and> fst (compute_cos (const_model 4) (mk 1 1 10) (mk 2 (- 1) 20) s2) = 7
       \<and> compute_cos_between_examples (const_model 4) 10 20 = (4::int))"
  by (simp add: compute_cos_def rebuild_models_def ex_labeled_def ex_new_def init_def ex_pools_def
      ex_env_def label_instances_in_all_datasets_def remove_instances_def add_instances_def
      svm_problem_def mk_def const_model_def Let_def)

text \<open>
  C2, amended: \<open>rebuild_models\<close> leaves both caches exactly as they were, whether it
  returns or raises; the entries computed with earlier models stay and are served to
  later lookups.
\<close>

theorem rebuild_models_caches_unchanged:
  "div_hash (snd (rebuild_models E undersample_first s)) = div_hash s
   \<and> dist_hash (snd (rebuild_models E undersample_first s)) = dist_hash s"
  by (auto simp: rebuild_models_def undersample_labeled_datasets_def Let_def
      split: list.splits sum.splits prod.splits)

subsection \<open>Majority vote (C3)\<close>

text \<open>
  C3: \<open>majority_predict\<close> returns the predicted value with the highest vote count. The
  code does not: with three models that predict \<open>-1\<close>, \<open>-1\<close> and \<open>+1\<close> the distinct votes
  are enumerated as \<open>[1, -1]\<close>, \<open>_arg_max\<close> finds the larger count at position 1 but
  stores \<open>i = 0\<close>, and the value returned is \<open>+1\<close>, the vote of one model against two.
\<close>

theorem majority_predict_returns_minority_vote:
  "majority_predict cpython_list_set
     (Some [const_model (- 1), const_model (- 1), const_model 1]) [0, 0, 0] = Inr 1"
  by (simp add: majority_predict_def cpython_list_set_def py_hash_def const_model_def
      arg_max_def getitem_def)

subsection \<open>The default query function (C4)\<close>

text \<open>
  C4, as stated: on a new learner the default query function returns \<open>k\<close> identifiers
  drawn at random. This fails: on the new learner \<open>ex_new\<close> the call with \<open>k = 2\<close> raises
  and returns no identifier.
\<close>

theorem default_query_function_raises_on_ex_new:
  "query_function ex_new (self ex_new) 2
     = (Inl (Exception ''no query function provided!''), self ex_new)"
  by (simp add: ex_new_def init_def base_q_function_def)

text \<open>
  C4, amended: on every newly constructed learner the query function is
  \<open>base_q_function\<close>, which for every batch size raises the exception
  "no query function provided!" and leaves the learner as it is.
\<close>

theorem default_query_function_raises:
  "query_function (init E unlabeled ms) = base_q_function
   \<and> base_q_function s k = (Inl (Exception ''no query function provided!''), s)"
  by (simp add: init_def base_q_function_def)

subsection \<open>Prediction without models (C8)\<close>

text \<open>
  C8: \<open>majority_predict\<close> and \<open>cautious_predict\<close> raise the exception
  "No models have been initialized." exactly when the learner's \<open>models\<close> is \<open>None\<close> or
  the empty list; with at least one model neither raises it, whatever the input.
\<close>

theorem no_models_error_iff:
  "(majority_predict list_set (models s) X = Inl no_models
      \<longleftrightarrow> models s = None \<or> models s = Some [])
   \<and> (cautious_predict (models s) X = Inl no_models
      \<longleftrightarrow> models s = None \<or> models s = Some [])"
  by (auto simp: majority_predict_def cautious_predict_def no_models_def getitem_def arg_max_def
      Let_def split: option.splits list.splits sum.splits)

subsection \<open>Undersampling with \<open>k = 0\<close> (C10)\<close>

text \<open>
  C10: \<open>undersample_labeled_datasets(0)\<close> does what \<open>undersample_labeled_datasets()\<close>
  does: the removal count is recomputed as the majority count minus the minority
  count of feature space 0, and the copies come back with nothing removed only when
  that count fails the guard \<open>0 < k < majority count\<close>.
\<close>

theorem undersample_zero_is_default:
  "undersample_labeled_datasets E (Some 0) s = undersample_labeled_datasets E None s
   \<and> undersample_labeled_datasets E (Some 0) s =
       (case labeled_datasets s of
          [] \<Rightarrow> (Inl no_labeled_data, s)
        | d0 # others \<Rightarrow>
            if d0 = [] then (Inl no_labeled_data, s)
            else
              (let k = number_of_majority_examples (minority E) d0
                         - number_of_minority_examples (minority E) d0
               in if k < number_of_majority_examples (minority E) d0 \<and> 0 < k
                  then (Inr (snd (undersample (minority E) (draw E) k d0)
                          # map (\<lambda>d. snd (remove_instances
                                     (map id_of (fst (undersample (minority E) (draw E) k d0))) d))
                              others), s)
                  else (Inr (d0 # others), s)))"
  by (cases "labeled_datasets s") (simp_all add: undersample_labeled_datasets_def Let_def)

text \<open>
  With three majority examples and one minority example labeled, the call with \<open>k = 0\<close>
  removes two examples.
\<close>

theorem undersample_zero_is_default_witness:
  "undersample_labeled_datasets ex_env (Some 0) ex_labeled
     = (Inr [[mk 1 1 10, mk 4 (- 1) 40], [mk 1 1 11, mk 4 (- 1) 41]], ex_labeled)"
proof -
  have "undersample_labeled_datasets ex_env None ex_labeled
     = (Inr [[mk 1 1 10, mk 4 (- 1) 40], [mk 1 1 11, mk 4 (- 1) 41]], ex_labeled)"
    by (simp add: undersample_labeled_datasets_def undersample_def number_of_majority_examples_def
        number_of_minority_examples_def ex_labeled_def ex_new_def init_def ex_pools_def ex_env_def
        label_instances_in_all_datasets_def remove_instances_def add_instances_def
        get_instance_ids_def mk_def Let_def numeral_eq_Suc)
  then show ?thesis using undersample_zero_is_default [of ex_env ex_labeled] by simp
qed

subsection \<open>The active learning loop (C1, C9)\<close>

lemma queries_append: "queries (tr @ tr') = queries tr @ queries tr'"
  by (induction tr rule: queries.induct) auto

lemma iterations_step:
  fixes N b c :: int
  assumes "0 < b" "c < N"
  shows "nat \<lceil>real_of_int (N - c) / real_of_int b\<rceil>
           = Suc (nat \<lceil>real_of_int (N - (c + b)) / real_of_int b\<rceil>)"
proof -
  have c1: "\<lceil>real_of_int (N - c) / real_of_int b\<rceil> = - ((- (N - c)) div b)"
    by (rule ceiling_divide_eq_div)
  have c2: "\<lceil>real_of_int (N - (c + b)) / real_of_int b\<rceil> = - ((- (N - (c + b))) div b)"
    by (rule ceiling_divide_eq_div)
  have "(- (N - (c + b)) - b + b) div b = (- (N - (c + b)) - b) div b + 1"
    using assms(1) div_add_self2 [of b "- (N - (c + b)) - b"] by simp
  then have d: "(- (N - c)) div b = (- (N - (c + b))) div b - 1"
    by (simp add: algebra_simps)
  have neg: "(- (N - c)) div b < 0" using assms by (simp add: pos_imp_zdiv_neg_iff)
  show ?thesis unfolding c1 c2 using d neg by arith
qed

lemma iterations_done:
  fixes N b c :: int
  assumes "0 < b" "\<not> c < N"
  shows "nat \<lceil>real_of_int (N - c) / real_of_int b\<rceil> = 0"
proof -
  have "real_of_int (N - c) / real_of_int b \<le> 0"
    using assms by (simp add: divide_nonpos_pos)
  then have "\<lceil>real_of_int (N - c) / real_of_int b\<rceil> \<le> 0" by (simp add: ceiling_le_zero)
  then show ?thesis by simp
qed

lemma label_instances_length_labeled:
  "length (labeled_datasets (label_instances_in_all_datasets ids s)) = length (labeled_datasets s)"
  by (simp add: label_instances_in_all_datasets_def Let_def)

lemma label_instances_length_unlabeled:
  "length (unlabeled_datasets (label_instances_in_all_datasets ids s)) = length (unlabeled_datasets s)"
  by (simp add: label_instances_in_all_datasets_def Let_def)

lemma rebuild_models_ok:
  "labeled_datasets s \<noteq> [] \<Longrightarrow>
   rebuild_models E False s
     = (Inr (), s\<lparr> models := Some (map (\<lambda>(dataset, param). svm_model E (svm_problem dataset) param)
                                       (zip (labeled_datasets s) (params s))) \<rparr>)"
  by (cases "labeled_datasets s") (simp_all add: rebuild_models_def)

lemma selection_iteration_labeled:
  assumes "qf s b = (Inr r, s1)" "labeled_datasets s1 \<noteq> []"
  shows "labeled_datasets (selection_iteration E qf b flag s) \<noteq> []"
proof -
  define s2 where "s2 = (case r of Some (i # is) \<Rightarrow> label_instances_in_all_datasets (i # is) s1 | _ \<Rightarrow> s1)"
  have "length (labeled_datasets s2) = length (labeled_datasets s1)"
    by (simp add: s2_def label_instances_length_labeled split: option.splits list.splits)
  with assms(2) have ne2: "labeled_datasets s2 \<noteq> []" by auto
  have "selection_iteration E qf b flag s = (if flag then snd (rebuild_models E False s2) else s2)"
    by (simp add: selection_iteration_def assms(1) s2_def Let_def split: option.splits list.splits)
  then show ?thesis using ne2 by (simp add: rebuild_models_ok)
qed

lemma active_learn_body_effect:
  assumes "qf s b = (Inr r, s1)" "labeled_datasets s1 \<noteq> []"
  shows "\<exists>tr'. active_learn_body E qf b flag s tr = (Inr (), selection_iteration E qf b flag s, tr')
           \<and> queries tr' = queries tr @ [b]"
proof -
  define s2 where "s2 = (case r of Some (i # is) \<Rightarrow> label_instances_in_all_datasets (i # is) s1 | _ \<Rightarrow> s1)"
  define tr2 where "tr2 = (case r of Some (i # is) \<Rightarrow> tr @ [Query b, Label (i # is)] | _ \<Rightarrow> tr @ [Query b])"
  have split: "(case r of Some (i # is) \<Rightarrow> (label_instances_in_all_datasets (i # is) s1, tr @ [Query b, Label (i # is)])
                 | _ \<Rightarrow> (s1, tr @ [Query b])) = (s2, tr2)"
    by (simp add: s2_def tr2_def split: option.splits list.splits)
  have "length (labeled_datasets s2) = length (labeled_datasets s1)"
    by (simp add: s2_def label_instances_length_labeled split: option.splits list.splits)
  with assms(2) have ne2: "labeled_datasets s2 \<noteq> []" by auto
  have q2: "queries tr2 = queries tr @ [b]"
    by (simp add: tr2_def queries_append split: option.splits list.splits)
  have eff: "selection_iteration E qf b flag s = (if flag then snd (rebuild_models E False s2) else s2)"
    by (simp add: selection_iteration_def assms(1) s2_def Let_def split: option.splits list.splits)
  show ?thesis
  proof (cases flag)
    case True
    have "active_learn_body E qf b flag s tr =
          (Inr (), snd (rebuild_models E False s2), tr2 @ [Rebuild])"
      using ne2 by (cases "labeled_datasets s2")
        (simp_all add: active_learn_body_def assms(1) split True rebuild_models_ok)
    then show ?thesis using q2 eff True by (simp add: queries_append)
  next
    case False
    have "active_learn_body E qf b flag s tr = (Inr (), s2, tr2)"
      using ne2 by (cases "labeled_datasets s2")
        (simp_all add: active_learn_body_def assms(1) split False)
    then show ?thesis using q2 eff False by simp
  qed
qed

lemma active_learn_loop_effect:
  assumes b: "0 < b"
    and qf: "\<And>t. labeled_datasets t \<noteq> [] \<Longrightarrow> \<exists>r t'. qf t b = (Inr r, t') \<and> labeled_datasets t' \<noteq> []"
  shows "labeled_datasets s \<noteq> [] \<Longrightarrow>
         \<exists>tr'. active_learn_loop E qf N b flag c s tr
                  = Some (Inr (),
                      (selection_iteration E qf b flag ^^ nat \<lceil>real_of_int (N - c) / real_of_int b\<rceil>) s,
                      tr')
           \<and> labeled_datasets
                ((selection_iteration E qf b flag ^^ nat \<lceil>real_of_int (N - c) / real_of_int b\<rceil>) s) \<noteq> []
           \<and> queries tr' = queries tr @ replicate (nat \<lceil>real_of_int (N - c) / real_of_int b\<rceil>) b"
proof (induction "nat (N - c)" arbitrary: c s tr rule: less_induct)
  case less
  let ?it = "selection_iteration E qf b flag"
  show ?case
  proof (cases "c < N")
    case False
    then have "active_learn_loop E qf N b flag c s tr = Some (Inr (), s, tr)"
      by (subst active_learn_loop.simps) simp
    then show ?thesis using less.prems iterations_done [OF b False] by simp
  next
    case True
    from qf [OF less.prems] obtain r s1 where q: "qf s b = (Inr r, s1)" "labeled_datasets s1 \<noteq> []"
      by blast
    from active_learn_body_effect [where qf = qf and s = s and b = b and E = E and flag = flag and tr = tr,
        OF q]
    obtain tr' where body: "active_learn_body E qf b flag s tr = (Inr (), ?it s, tr')"
      "queries tr' = queries tr @ [b]" by blast
    have ne: "labeled_datasets (?it s) \<noteq> []"
      by (rule selection_iteration_labeled [where qf = qf, OF q])
    have unfold: "active_learn_loop E qf N b flag c s tr
        = active_learn_loop E qf N b flag (c + b) (?it s) tr'"
      by (subst active_learn_loop.simps) (simp add: True body(1))
    have "nat (N - (c + b)) < nat (N - c)" using b True by simp
    from less.hyps [OF this ne]
    obtain tr'' where rest:
      "active_learn_loop E qf N b flag (c + b) (?it s) tr'
         = Some (Inr (), (?it ^^ nat \<lceil>real_of_int (N - (c + b)) / real_of_int b\<rceil>) (?it s), tr'')"
      "labeled_datasets ((?it ^^ nat \<lceil>real_of_int (N - (c + b)) / real_of_int b\<rceil>) (?it s)) \<noteq> []"
      "queries tr'' = queries tr' @ replicate (nat \<lceil>real_of_int (N - (c + b)) / real_of_int b\<rceil>) b"
      by blast
    have k: "nat \<lceil>real_of_int (N - c) / real_of_int b\<rceil>
               = Suc (nat \<lceil>real_of_int (N - (c + b)) / real_of_int b\<rceil>)"
      by (rule iterations_step [OF b True])
    have pow: "(?it ^^ nat \<lceil>real_of_int (N - c) / real_of_int b\<rceil>) s
        = (?it ^^ nat \<lceil>real_of_int (N - (c + b)) / real_of_int b\<rceil>) (?it s)"
      unfolding k by (simp add: funpow_swap1)
    have "queries tr'' = queries tr @ replicate (nat \<lceil>real_of_int (N - c) / real_of_int b\<rceil>) b"
      using rest(3) body(2) unfolding k by (simp add: replicate_append_same)
    with unfold rest(1,2) pow show ?thesis by simp
  qed
qed

text \<open>
  C9: with \<open>N > 0\<close> and a batch size \<open>b > 0\<close>, \<open>active_learn(N, b)\<close> performs exactly
  \<open>ceil(N / b)\<close> selection iterations and then stops: the learner it returns is the one
  left by \<open>ceil(N / b)\<close> selection iterations from the initial learner, followed by the
  final \<open>rebuild_models\<close>, and the query function has been called \<open>ceil(N / b)\<close> times,
  each time with \<open>b\<close>. This holds whatever the query function returns (a list of any
  length, the empty list or nothing), as long as the query function itself returns and
  there is a feature space: the counter grows by \<open>b\<close> per pass, not by the number of
  examples moved.
\<close>

theorem active_learn_iterations:
  assumes "0 < N" "0 < b" "labeled_datasets (self obj) \<noteq> []"
    and "\<And>t. labeled_datasets t \<noteq> [] \<Longrightarrow>
           \<exists>r t'. query_function obj t b = (Inr r, t') \<and> labeled_datasets t' \<noteq> []"
  shows "\<exists>tr. active_learn E obj N b flag
                 = Some (Inr (),
                     snd (rebuild_models E False
                       ((selection_iteration E (query_function obj) b flag
                           ^^ nat \<lceil>real_of_int N / real_of_int b\<rceil>) (self obj))),
                     tr)
           \<and> queries tr = replicate (nat \<lceil>real_of_int N / real_of_int b\<rceil>) b"
proof -
  let ?n = "nat \<lceil>real_of_int N / real_of_int b\<rceil>"
  let ?it = "selection_iteration E (query_function obj) b flag"
  from active_learn_loop_effect [where qf = "query_function obj" and b = b and s = "self obj"
      and E = E and N = N and flag = flag and c = 0 and tr = "[]", OF assms(2) assms(4) assms(3)]
  obtain tr' where loop:
    "active_learn_loop E (query_function obj) N b flag 0 (self obj) [] = Some (Inr (), (?it ^^ ?n) (self obj), tr')"
    "labeled_datasets ((?it ^^ ?n) (self obj)) \<noteq> []"
    "queries tr' = replicate ?n b"
    by auto
  have "active_learn E obj N b flag
      = Some (Inr (), snd (rebuild_models E False ((?it ^^ ?n) (self obj))), tr' @ [Rebuild])"
    using loop(1,2) by (simp add: active_learn_def rebuild_models_ok)
  then show ?thesis using loop(3) by (simp add: queries_append)
qed

text \<open>
  A run with the void strategy \<open>label_first_q\<close>, \<open>N = 5\<close> and \<open>b = 2\<close>: three passes,
  in which the strategy labels three examples, though it returns no identifier and
  fewer than \<open>N\<close> examples are labeled.
\<close>

theorem active_learn_iterations_witness:
  "\<exists>tr. active_learn ex_env ex_self 5 2 True = Some (Inr (), ex_self_done, tr)
     \<and> queries tr = [2, 2, 2]"
proof -
  have ne: "labeled_datasets (self ex_self) \<noteq> []"
    by (simp add: ex_self_def ex_new_def init_def ex_pools_def)
  have qf: "\<And>t::(int, int, unit) learner. labeled_datasets t \<noteq> [] \<Longrightarrow>
           \<exists>r t'. query_function ex_self t 2 = (Inr r, t') \<and> labeled_datasets t' \<noteq> []"
  proof -
    fix t :: "(int, int, unit) learner"
    assume "labeled_datasets t \<noteq> []"
    then have "length (labeled_datasets (label_instances_in_all_datasets ids t)) \<noteq> 0" for ids
      by (simp add: label_instances_length_labeled)
    then show "\<exists>r t'. query_function ex_self t 2 = (Inr r, t') \<and> labeled_datasets t' \<noteq> []"
      using \<open>labeled_datasets t \<noteq> []\<close>
      by (cases "unlabeled_datasets t") (simp_all add: ex_self_def label_first_q_def)
  qed
  have n: "nat \<lceil>real_of_int 5 / real_of_int 2\<rceil> = Suc (Suc (Suc 0))"
    by simp
  have "snd (rebuild_models ex_env False
          ((selection_iteration ex_env (query_function ex_self) 2 True ^^ Suc (Suc (Suc 0))) (self ex_self)))
        = ex_self_done"
    by (simp add: selection_iteration_def label_first_q_def rebuild_models_def
        label_instances_in_all_datasets_def remove_instances_def add_instances_def
        get_instance_ids_def svm_problem_def ex_self_done_def
        ex_self_def ex_new_def init_def ex_pools_def ex_env_def mk_def const_model_def Let_def)
  moreover have "replicate (Suc (Suc (Suc 0))) (2::int) = [2, 2, 2]" by simp
  ultimately show ?thesis
    using active_learn_iterations [of 5 2 ex_self ex_env True, OF _ _ ne qf] unfolding n by simp
qed

lemma length_filter_ids:
  assumes "distinct (map f u)" "distinct ids" "set ids \<subseteq> f ` set u"
  shows "length (filter (\<lambda>i. f i \<in> set ids) u) = length ids"
proof -
  have "length (filter (\<lambda>i. f i \<in> set ids) u) = length (map f (filter (\<lambda>i. f i \<in> set ids) u))"
    by simp
  also have "map f (filter (\<lambda>i. f i \<in> set ids) u) = filter (\<lambda>a. a \<in> set ids) (map f u)"
    by (simp add: filter_map comp_def)
  also have "length \<dots> = card (set (filter (\<lambda>a. a \<in> set ids) (map f u)))"
    by (rule distinct_card [symmetric], rule distinct_filter, rule assms(1))
  also have "set (filter (\<lambda>a. a \<in> set ids) (map f u)) = set ids"
    using assms(3) by auto
  also have "card (set ids) = length ids"
    using assms(2) by (rule distinct_card)
  finally show ?thesis .
qed

lemma length_filter_not_ids:
  assumes "distinct (map f u)" "distinct ids" "set ids \<subseteq> f ` set u"
  shows "length (filter (\<lambda>i. f i \<notin> set ids) u) + length ids = length u"
  using length_filter_ids [OF assms] sum_length_filter_compl [of "\<lambda>i. f i \<in> set ids" u]
  by simp

lemma map_fst_zip_pair:
  "length U = length L \<Longrightarrow> map fst (map (\<lambda>(u, l). (F u, G u l)) (zip U L)) = map F U"
  by (induction U L rule: list_induct2) simp_all

lemma map_snd_zip_pair:
  "map snd (map (\<lambda>(u, l). (F u, G u l)) (zip U L)) = map (\<lambda>(u, l). G u l) (zip U L)"
  by (induction U arbitrary: L) (simp, case_tac L, simp_all)

lemma label_instances_eq:
  assumes "length (labeled_datasets s) = length (unlabeled_datasets s)"
  shows "label_instances_in_all_datasets ids s =
         s\<lparr> unlabeled_datasets := map (filter (\<lambda>i. id_of i \<notin> set ids)) (unlabeled_datasets s),
            labeled_datasets := map (\<lambda>(u, l). l @ filter (\<lambda>i. id_of i \<in> set ids) u)
                                    (zip (unlabeled_datasets s) (labeled_datasets s)) \<rparr>"
proof -
  have len: "length (unlabeled_datasets s) = length (labeled_datasets s)" using assms by simp
  show ?thesis
    unfolding label_instances_in_all_datasets_def Let_def remove_instances_def add_instances_def
      fst_conv snd_conv map_fst_zip_pair [OF len] map_snd_zip_pair
    using len by simp
qed

lemma pool_okI:
  assumes "unlabeled_datasets s \<noteq> []"
    and "length (labeled_datasets s) = length (unlabeled_datasets s)"
    and "\<And>u. u \<in> set (unlabeled_datasets s) \<Longrightarrow> distinct (get_instance_ids u)"
    and "\<And>u. u \<in> set (unlabeled_datasets s) \<Longrightarrow>
           set (get_instance_ids u) = set (get_instance_ids (hd (unlabeled_datasets s)))"
  shows "pool_ok s"
  unfolding pool_ok_def using assms by blast

lemma label_instances_pool:
  assumes ok: "pool_ok s" and d: "distinct ids"
    and sub: "set ids \<subseteq> set (get_instance_ids (hd (unlabeled_datasets s)))"
  shows "pool_ok (label_instances_in_all_datasets ids s)"
    and "moved_by (length ids) s (label_instances_in_all_datasets ids s)"
proof -
  let ?U = "unlabeled_datasets s" and ?L = "labeled_datasets s"
  from ok have len: "length ?L = length ?U" and ne: "?U \<noteq> []"
    and each: "\<And>u. u \<in> set ?U \<Longrightarrow> distinct (get_instance_ids u)
                 \<and> set (get_instance_ids u) = set (get_instance_ids (hd ?U))"
    unfolding pool_ok_def by blast+
  note eq = label_instances_eq [OF len, of ids]
  have hd_eq: "hd (map (filter (\<lambda>i. id_of i \<notin> set ids)) ?U) = filter (\<lambda>i. id_of i \<notin> set ids) (hd ?U)"
    using ne by (simp add: hd_map)
  have ids_filter: "\<And>u. set (get_instance_ids (filter (\<lambda>i. id_of i \<notin> set ids) u))
                      = set (get_instance_ids u) - set ids"
    by (auto simp: get_instance_ids_def)
  let ?s' = "s\<lparr> unlabeled_datasets := map (filter (\<lambda>i. id_of i \<notin> set ids)) ?U,
            labeled_datasets := map (\<lambda>(u, l). l @ filter (\<lambda>i. id_of i \<in> set ids) u) (zip ?U ?L) \<rparr>"
  have "pool_ok ?s'"
  proof (rule pool_okI)
    show "unlabeled_datasets ?s' \<noteq> []" using ne by simp
    show "length (labeled_datasets ?s') = length (unlabeled_datasets ?s')" using len by simp
  next
    fix u' assume "u' \<in> set (unlabeled_datasets ?s')"
    then obtain u where u: "u \<in> set ?U" "u' = filter (\<lambda>i. id_of i \<notin> set ids) u" by auto
    from each [OF u(1)] have du: "distinct (map id_of u)"
      and su: "set (get_instance_ids u) = set (get_instance_ids (hd ?U))"
      by (simp_all add: get_instance_ids_def)
    show "distinct (get_instance_ids u')"
      unfolding u(2) get_instance_ids_def using du by (rule distinct_map_filter)
    show "set (get_instance_ids u') = set (get_instance_ids (hd (unlabeled_datasets ?s')))"
      using su by (simp add: u(2) hd_eq ids_filter)
  qed
  then show "pool_ok (label_instances_in_all_datasets ids s)"
    by (simp only: eq)
  have cnt: "\<And>u. u \<in> set ?U \<Longrightarrow> length (filter (\<lambda>i. id_of i \<in> set ids) u) = length ids
                \<and> length (filter (\<lambda>i. id_of i \<notin> set ids) u) + length ids = length u"
  proof -
    fix u assume "u \<in> set ?U"
    from each [OF this] sub have "distinct (map id_of u)" "set ids \<subseteq> id_of ` set u"
      by (auto simp: get_instance_ids_def)
    then show "length (filter (\<lambda>i. id_of i \<in> set ids) u) = length ids
                \<and> length (filter (\<lambda>i. id_of i \<notin> set ids) u) + length ids = length u"
      using length_filter_ids [of id_of u ids] length_filter_not_ids [of id_of u ids] d by simp
  qed
  have "moved_by (length ids) s ?s'"
    unfolding moved_by_def using len cnt by (simp add: nth_mem)
  then show "moved_by (length ids) s (label_instances_in_all_datasets ids s)"
    by (simp only: eq)
qed

lemma moved_by_trans:
  assumes "moved_by a s s1" "moved_by c s1 s2"
  shows "moved_by (a + c) s s2"
proof -
  have lens: "length (unlabeled_datasets s1) = length (unlabeled_datasets s)"
    "length (labeled_datasets s1) = length (labeled_datasets s)"
    "length (unlabeled_datasets s2) = length (unlabeled_datasets s1)"
    "length (labeled_datasets s2) = length (labeled_datasets s1)"
    using assms by (simp_all add: moved_by_def)
  have u: "length (unlabeled_datasets s2 ! i) + (a + c) = length (unlabeled_datasets s ! i)"
    if "i < length (unlabeled_datasets s)" for i
  proof -
    have "length (unlabeled_datasets s1 ! i) + a = length (unlabeled_datasets s ! i)"
      using assms(1) that by (simp add: moved_by_def)
    moreover have "length (unlabeled_datasets s2 ! i) + c = length (unlabeled_datasets s1 ! i)"
      using assms(2) that lens by (simp add: moved_by_def)
    ultimately show ?thesis by simp
  qed
  have l: "length (labeled_datasets s2 ! i) = length (labeled_datasets s ! i) + (a + c)"
    if "i < length (labeled_datasets s)" for i
  proof -
    have "length (labeled_datasets s1 ! i) = length (labeled_datasets s ! i) + a"
      using assms(1) that by (simp add: moved_by_def)
    moreover have "length (labeled_datasets s2 ! i) = length (labeled_datasets s1 ! i) + c"
      using assms(2) that lens by (simp add: moved_by_def)
    ultimately show ?thesis by simp
  qed
  show ?thesis unfolding moved_by_def using lens u l by simp
qed

lemma moved_by_refl: "moved_by 0 s s"
  by (simp add: moved_by_def)


lemma pool_ok_cong:
  "unlabeled_datasets s' = unlabeled_datasets s \<Longrightarrow> labeled_datasets s' = labeled_datasets s \<Longrightarrow>
   pool_ok s' = pool_ok s"
  by (simp add: pool_ok_def)

lemma moved_by_cong:
  "unlabeled_datasets t = unlabeled_datasets s \<Longrightarrow> labeled_datasets t = labeled_datasets s \<Longrightarrow>
   unlabeled_datasets t' = unlabeled_datasets s' \<Longrightarrow> labeled_datasets t' = labeled_datasets s' \<Longrightarrow>
   moved_by k t t' = moved_by k s s'"
  by (simp add: moved_by_def)

lemma pool_ok_labeled_nonempty: "pool_ok s \<Longrightarrow> labeled_datasets s \<noteq> []"
  unfolding pool_ok_def by (cases "labeled_datasets s") auto

lemma active_learn_body_moves:
  assumes ok: "pool_ok s" and b: "0 < b"
    and q: "qf s b = (Inr (Some ids), s1)"
    and same: "unlabeled_datasets s1 = unlabeled_datasets s" "labeled_datasets s1 = labeled_datasets s"
    and ids: "length ids = nat b" "distinct ids"
      "set ids \<subseteq> set (get_instance_ids (hd (unlabeled_datasets s)))"
  shows "\<exists>s' tr'. active_learn_body E qf b flag s tr = (Inr (), s', tr')
           \<and> pool_ok s' \<and> moved_by (nat b) s s'
           \<and> count_list tr' Rebuild = count_list tr Rebuild + (if flag then 1 else 0)"
proof -
  from ids(1) b obtain i "is" where cons: "ids = i # is" by (cases ids) auto
  define s2 where "s2 = label_instances_in_all_datasets (i # is) s1"
  have s2_ids: "s2 = label_instances_in_all_datasets ids s1" by (simp add: s2_def cons)
  have ok1: "pool_ok s1" using ok pool_ok_cong [OF same] by simp
  have sub1: "set ids \<subseteq> set (get_instance_ids (hd (unlabeled_datasets s1)))"
    using ids(3) same by simp
  have ok2: "pool_ok s2" unfolding s2_ids by (rule label_instances_pool(1) [OF ok1 ids(2) sub1])
  have "moved_by (length ids) s1 s2" unfolding s2_ids
    by (rule label_instances_pool(2) [OF ok1 ids(2) sub1])
  then have mv2: "moved_by (nat b) s s2"
    using moved_by_cong [OF same refl refl, of "nat b" s2] ids(1) by simp
  have ne2: "labeled_datasets s2 \<noteq> []" by (rule pool_ok_labeled_nonempty [OF ok2])
  show ?thesis
  proof (cases flag)
    case True
    let ?s3 = "s2\<lparr> models := Some (map (\<lambda>(dataset, param). svm_model E (svm_problem dataset) param)
                                       (zip (labeled_datasets s2) (params s2))) \<rparr>"
    have "active_learn_body E qf b flag s tr = (Inr (), ?s3, tr @ [Query b, Label ids, Rebuild])"
      using ne2 by (cases "labeled_datasets s2")
        (simp_all add: active_learn_body_def q cons True rebuild_models_ok s2_def [symmetric])
    moreover have "pool_ok ?s3" using ok2 pool_ok_cong [of ?s3 s2] by simp
    moreover have "moved_by (nat b) s ?s3" using mv2 moved_by_cong [of s s ?s3 s2 "nat b"] by simp
    ultimately show ?thesis using True by simp
  next
    case False
    have "active_learn_body E qf b flag s tr = (Inr (), s2, tr @ [Query b, Label ids])"
      using ne2 by (cases "labeled_datasets s2")
        (simp_all add: active_learn_body_def q cons False s2_def [symmetric])
    then show ?thesis using ok2 mv2 False by simp
  qed
qed

lemma active_learn_loop_moves:
  assumes b: "0 < b"
    and qf: "\<And>t. pool_ok t \<Longrightarrow> nat b \<le> length (hd (unlabeled_datasets t)) \<Longrightarrow>
               \<exists>ids t'. qf t b = (Inr (Some ids), t')
                 \<and> unlabeled_datasets t' = unlabeled_datasets t
                 \<and> labeled_datasets t' = labeled_datasets t
                 \<and> length ids = nat b \<and> distinct ids
                 \<and> set ids \<subseteq> set (get_instance_ids (hd (unlabeled_datasets t)))"
  shows "pool_ok s \<Longrightarrow>
         nat \<lceil>real_of_int (N - c) / real_of_int b\<rceil> * nat b \<le> length (hd (unlabeled_datasets s)) \<Longrightarrow>
         \<exists>s' tr'. active_learn_loop E qf N b flag c s tr = Some (Inr (), s', tr')
           \<and> pool_ok s'
           \<and> moved_by (nat \<lceil>real_of_int (N - c) / real_of_int b\<rceil> * nat b) s s'
           \<and> count_list tr' Rebuild = count_list tr Rebuild
                + (if flag then nat \<lceil>real_of_int (N - c) / real_of_int b\<rceil> else 0)"
proof (induction "nat (N - c)" arbitrary: c s tr rule: less_induct)
  case less
  let ?k = "nat \<lceil>real_of_int (N - c) / real_of_int b\<rceil>"
  let ?k' = "nat \<lceil>real_of_int (N - (c + b)) / real_of_int b\<rceil>"
  show ?case
  proof (cases "c < N")
    case False
    then have "active_learn_loop E qf N b flag c s tr = Some (Inr (), s, tr)"
      by (subst active_learn_loop.simps) simp
    then show ?thesis using less.prems(1) iterations_done [OF b False] by (simp add: moved_by_refl)
  next
    case True
    have k: "?k = Suc ?k'" by (rule iterations_step [OF b True])
    have enough: "nat b \<le> length (hd (unlabeled_datasets s))"
      using less.prems(2) unfolding k by simp
    from qf [OF less.prems(1) enough] obtain ids s1 where
      q: "qf s b = (Inr (Some ids), s1)"
      and same: "unlabeled_datasets s1 = unlabeled_datasets s" "labeled_datasets s1 = labeled_datasets s"
      and ids: "length ids = nat b" "distinct ids"
        "set ids \<subseteq> set (get_instance_ids (hd (unlabeled_datasets s)))"
      by blast
    from active_learn_body_moves [where qf = qf and s = s and b = b and E = E and flag = flag and tr = tr,
        OF less.prems(1) b q same ids]
    obtain s' tr' where body: "active_learn_body E qf b flag s tr = (Inr (), s', tr')"
      "pool_ok s'" "moved_by (nat b) s s'"
      "count_list tr' Rebuild = count_list tr Rebuild + (if flag then 1 else 0)" by blast
    have unfold: "active_learn_loop E qf N b flag c s tr = active_learn_loop E qf N b flag (c + b) s' tr'"
      by (subst active_learn_loop.simps) (simp add: True body(1))
    have ne: "unlabeled_datasets s \<noteq> []" "unlabeled_datasets s' \<noteq> []"
      using less.prems(1) body(2) unfolding pool_ok_def by blast+
    have "length (unlabeled_datasets s' ! 0) + nat b = length (unlabeled_datasets s ! 0)"
      using body(3) ne by (simp add: moved_by_def)
    then have hd_len: "length (hd (unlabeled_datasets s')) + nat b = length (hd (unlabeled_datasets s))"
      using ne by (simp add: hd_conv_nth)
    have enough': "?k' * nat b \<le> length (hd (unlabeled_datasets s'))"
      using less.prems(2) hd_len unfolding k by simp
    have "nat (N - (c + b)) < nat (N - c)" using b True by simp
    from less.hyps [OF this body(2) enough']
    obtain s'' tr'' where rest: "active_learn_loop E qf N b flag (c + b) s' tr' = Some (Inr (), s'', tr'')"
      "pool_ok s''" "moved_by (?k' * nat b) s' s''"
      "count_list tr'' Rebuild = count_list tr' Rebuild + (if flag then ?k' else 0)"
      by blast
    have "moved_by (nat b + ?k' * nat b) s s''" by (rule moved_by_trans [OF body(3) rest(3)])
    then have "moved_by (?k * nat b) s s''" unfolding k by simp
    moreover have "count_list tr'' Rebuild = count_list tr Rebuild + (if flag then ?k else 0)"
      using rest(4) body(4) unfolding k by simp
    ultimately show ?thesis using unfold rest(1,2) by simp
  qed
qed

text \<open>
  C1: with a batch size \<open>b > 0\<close>, a well-formed pool that holds at least
  \<open>ceil(N / b) * b\<close> examples, and a query function that returns \<open>b\<close> distinct identifiers
  of unlabeled examples at every call and leaves the partitions alone,
  \<open>active_learn(N, b)\<close> returns, \<open>ceil(N / b) * b\<close> examples have left every unlabeled
  dataset and joined every labeled dataset, and the last thing it does is one call of
  \<open>rebuild_models\<close>, whatever the flag: the trace before it holds one \<open>Rebuild\<close> per pass
  with the flag and none without, and the models returned are those trained on the final
  labeled datasets. For \<open>N \<le> 0\<close> the loop body never runs and the count is 0.
\<close>

theorem active_learn_budget:
  assumes b: "0 < b"
    and ok: "pool_ok (self obj)"
    and enough: "nat \<lceil>real_of_int N / real_of_int b\<rceil> * nat b
                   \<le> length (hd (unlabeled_datasets (self obj)))"
    and qf: "\<And>t. pool_ok t \<Longrightarrow> nat b \<le> length (hd (unlabeled_datasets t)) \<Longrightarrow>
               \<exists>ids t'. query_function obj t b = (Inr (Some ids), t')
                 \<and> unlabeled_datasets t' = unlabeled_datasets t
                 \<and> labeled_datasets t' = labeled_datasets t
                 \<and> length ids = nat b \<and> distinct ids
                 \<and> set ids \<subseteq> set (get_instance_ids (hd (unlabeled_datasets t)))"
  shows "\<exists>s' tr. active_learn E obj N b flag = Some (Inr (), s', tr @ [Rebuild])
           \<and> moved_by (nat \<lceil>real_of_int N / real_of_int b\<rceil> * nat b) (self obj) s'
           \<and> count_list tr Rebuild = (if flag then nat \<lceil>real_of_int N / real_of_int b\<rceil> else 0)
           \<and> models s' = Some (map (\<lambda>(dataset, param). svm_model E (svm_problem dataset) param)
                                  (zip (labeled_datasets s') (params s')))"
proof -
  from active_learn_loop_moves [where qf = "query_function obj" and b = b and s = "self obj"
      and E = E and N = N and flag = flag and c = 0 and tr = "[]", OF b qf ok]
    enough
  obtain s' tr' where loop:
    "active_learn_loop E (query_function obj) N b flag 0 (self obj) [] = Some (Inr (), s', tr')"
    "pool_ok s'" "moved_by (nat \<lceil>real_of_int N / real_of_int b\<rceil> * nat b) (self obj) s'"
    "count_list tr' Rebuild = (if flag then nat \<lceil>real_of_int N / real_of_int b\<rceil> else 0)"
    by auto
  let ?s'' = "s'\<lparr> models := Some (map (\<lambda>(dataset, param). svm_model E (svm_problem dataset) param)
                                       (zip (labeled_datasets s') (params s'))) \<rparr>"
  have "active_learn E obj N b flag = Some (Inr (), ?s'', tr' @ [Rebuild])"
    using loop(1) pool_ok_labeled_nonempty [OF loop(2)]
    by (simp add: active_learn_def rebuild_models_ok)
  moreover have "moved_by (nat \<lceil>real_of_int N / real_of_int b\<rceil> * nat b) (self obj) ?s''"
    using loop(3) moved_by_cong [of "self obj" "self obj" ?s'' s'] by simp
  ultimately show ?thesis using loop(4) by auto
qed

lemma first_k_selects:
  assumes "pool_ok t" "nat b \<le> length (hd (unlabeled_datasets t))"
  shows "\<exists>ids t'. first_k t b = (Inr (Some ids), t')
           \<and> unlabeled_datasets t' = unlabeled_datasets t
           \<and> labeled_datasets t' = labeled_datasets t
           \<and> length ids = nat b \<and> distinct ids
           \<and> set ids \<subseteq> set (get_instance_ids (hd (unlabeled_datasets t)))"
proof -
  from assms(1) obtain u0 rest where U: "unlabeled_datasets t = u0 # rest"
    unfolding pool_ok_def by (cases "unlabeled_datasets t") auto
  from assms(1) U have "distinct (get_instance_ids u0)"
    unfolding pool_ok_def by auto
  then have "distinct (take (nat b) (get_instance_ids u0))" by (rule distinct_take)
  moreover have "length (take (nat b) (get_instance_ids u0)) = nat b"
    using assms(2) U by (simp add: get_instance_ids_def)
  moreover have "set (take (nat b) (get_instance_ids u0)) \<subseteq> set (get_instance_ids u0)"
    by (rule set_take_subset)
  ultimately show ?thesis by (simp add: first_k_def U)
qed

lemma ex_pool_ok: "pool_ok (self ex_first)"
  by (simp add: pool_ok_def ex_first_def ex_new_def init_def ex_pools_def get_instance_ids_def mk_def)

text \<open>With \<open>N = 3\<close> and \<open>b = 2\<close> on the pool of four examples: two passes, four examples.\<close>

theorem active_learn_budget_witness:
  "\<exists>s' tr. active_learn ex_env ex_first 3 2 False = Some (Inr (), s', tr @ [Rebuild])
     \<and> moved_by 4 (self ex_first) s'
     \<and> count_list tr Rebuild = 0
     \<and> models s' = Some (map (\<lambda>(dataset, param). svm_model ex_env (svm_problem dataset) param)
                            (zip (labeled_datasets s') (params s')))"
proof -
  have b: "(0::int) < 2" by simp
  have enough: "nat \<lceil>real_of_int 3 / real_of_int 2\<rceil> * nat 2
                  \<le> length (hd (unlabeled_datasets (self ex_first)))"
    by (simp add: ex_first_def ex_new_def init_def ex_pools_def)
  have qf: "\<And>t. pool_ok t \<Longrightarrow> nat 2 \<le> length (hd (unlabeled_datasets t)) \<Longrightarrow>
               \<exists>ids t'. query_function ex_first t 2 = (Inr (Some ids), t')
                 \<and> unlabeled_datasets t' = unlabeled_datasets t
                 \<and> labeled_datasets t' = labeled_datasets t
                 \<and> length ids = nat 2 \<and> distinct ids
                 \<and> set ids \<subseteq> set (get_instance_ids (hd (unlabeled_datasets t)))"
    using first_k_selects [where b = 2] by (simp add: ex_first_def)
  show ?thesis
    using active_learn_budget [OF b ex_pool_ok enough qf, of ex_env False] by simp
qed

lemma ex_first_run:
  "active_learn ex_env ex_first 3 2 False
     = Some (Inr (),
         (self ex_new)\<lparr> unlabeled_datasets := [[], []],
                         labeled_datasets := ex_pools,
                         models := Some [const_model 4, const_model 4] \<rparr>,
         [Query 2, Label [1, 2], Query 2, Label [3, 4], Rebuild])"
  by (simp add: active_learn_def active_learn_loop.simps active_learn_body_def first_k_def
      rebuild_models_def label_instances_in_all_datasets_def remove_instances_def add_instances_def
      get_instance_ids_def svm_problem_def
      ex_first_def ex_new_def init_def ex_pools_def ex_env_def mk_def const_model_def Let_def)

subsection \<open>The diversity cache (C7)\<close>

lemma compute_div_loop_cached:
  "\<forall>y \<in> set ys. div_hash s (id_of x, id_of y) \<noteq> None \<Longrightarrow>
   compute_div_loop m x ys acc s calls
     = (fold (\<lambda>y a. a + the (div_hash s (id_of x, id_of y))) ys acc, s, calls)"
  by (induction ys arbitrary: acc) (auto split: option.splits)

lemma compute_div_loop_mono:
  "compute_div_loop m x ys acc s calls = (v, s', calls') \<Longrightarrow> div_hash s k = Some w \<Longrightarrow>
   div_hash s' k = Some w"
proof (induction ys arbitrary: acc s calls)
  case Nil
  then show ?case by simp
next
  case (Cons y ys)
  show ?case
  proof (cases "div_hash s (id_of x, id_of y)")
    case None
    with Cons.prems have run: "compute_div_loop m x ys
        (acc + compute_cos_between_examples m (point x) (point y))
        (s\<lparr>div_hash := (div_hash s)((id_of x, id_of y) \<mapsto> compute_cos_between_examples m (point x) (point y))\<rparr>)
        (calls @ [(id_of x, id_of y)]) = (v, s', calls')"
      by (simp add: Let_def)
    from None Cons.prems(2) have "k \<noteq> (id_of x, id_of y)" by auto
    with Cons.prems(2) show ?thesis
      using Cons.IH [OF run] by simp
  next
    case (Some u)
    with Cons.prems have run: "compute_div_loop m x ys (acc + u) s calls = (v, s', calls')"
      by simp
    show ?thesis using Cons.IH [OF run Cons.prems(2)] .
  qed
qed

lemma compute_div_loop_covers:
  "compute_div_loop m x ys acc s calls = (v, s', calls') \<Longrightarrow> y \<in> set ys \<Longrightarrow>
   div_hash s' (id_of x, id_of y) \<noteq> None"
proof (induction ys arbitrary: acc s calls)
  case Nil
  then show ?case by simp
next
  case (Cons z zs)
  show ?case
  proof (cases "div_hash s (id_of x, id_of z)")
    case None
    with Cons.prems have run: "compute_div_loop m x zs
        (acc + compute_cos_between_examples m (point x) (point z))
        (s\<lparr>div_hash := (div_hash s)((id_of x, id_of z) \<mapsto> compute_cos_between_examples m (point x) (point z))\<rparr>)
        (calls @ [(id_of x, id_of z)]) = (v, s', calls')"
      by (simp add: Let_def)
    show ?thesis
    proof (cases "y \<in> set zs")
      case True
      then show ?thesis using Cons.IH [OF run] by simp
    next
      case False
      with Cons.prems(2) have "y = z" by simp
      then show ?thesis using compute_div_loop_mono [OF run, of "(id_of x, id_of z)"] by simp
    qed
  next
    case (Some u)
    with Cons.prems have run: "compute_div_loop m x zs (acc + u) s calls = (v, s', calls')"
      by simp
    show ?thesis
    proof (cases "y \<in> set zs")
      case True
      then show ?thesis using Cons.IH [OF run] by simp
    next
      case False
      with Cons.prems(2) have "y = z" by simp
      then show ?thesis using compute_div_loop_mono [OF run Some] by simp
    qed
  qed
qed

lemma compute_div_loop_value:
  "compute_div_loop m x ys acc s calls = (v, s', calls') \<Longrightarrow>
   v = fold (\<lambda>y a. a + the (div_hash s' (id_of x, id_of y))) ys acc"
proof (induction ys arbitrary: acc s calls)
  case Nil
  then show ?case by simp
next
  case (Cons y ys)
  show ?case
  proof (cases "div_hash s (id_of x, id_of y)")
    case None
    with Cons.prems have run: "compute_div_loop m x ys
        (acc + compute_cos_between_examples m (point x) (point y))
        (s\<lparr>div_hash := (div_hash s)((id_of x, id_of y) \<mapsto> compute_cos_between_examples m (point x) (point y))\<rparr>)
        (calls @ [(id_of x, id_of y)]) = (v, s', calls')"
      by (simp add: Let_def)
    have "div_hash s' (id_of x, id_of y) = Some (compute_cos_between_examples m (point x) (point y))"
      using compute_div_loop_mono [OF run] by simp
    then show ?thesis using Cons.IH [OF run] by simp
  next
    case (Some u)
    with Cons.prems have run: "compute_div_loop m x ys (acc + u) s calls = (v, s', calls')"
      by simp
    have "div_hash s' (id_of x, id_of y) = Some u"
      using compute_div_loop_mono [OF run Some] .
    then show ?thesis using Cons.IH [OF run] by simp
  qed
qed

lemma compute_div_loop_calls:
  "compute_div_loop m x ys acc s calls = (v, s', calls') \<Longrightarrow>
   \<exists>new. calls' = calls @ new \<and> distinct new
         \<and> set new = (\<lambda>y. (id_of x, id_of y)) ` set ys - dom (div_hash s)"
proof (induction ys arbitrary: acc s calls)
  case Nil
  then show ?case by simp
next
  case (Cons y ys)
  show ?case
  proof (cases "div_hash s (id_of x, id_of y)")
    case None
    let ?s1 = "s\<lparr>div_hash := (div_hash s)((id_of x, id_of y) \<mapsto> compute_cos_between_examples m (point x) (point y))\<rparr>"
    from None Cons.prems have run: "compute_div_loop m x ys
        (acc + compute_cos_between_examples m (point x) (point y)) ?s1
        (calls @ [(id_of x, id_of y)]) = (v, s', calls')"
      by (simp add: Let_def)
    from Cons.IH [OF run] obtain new where
      new: "calls' = (calls @ [(id_of x, id_of y)]) @ new" "distinct new"
        "set new = (\<lambda>y. (id_of x, id_of y)) ` set ys - dom (div_hash ?s1)"
      by blast
    have "calls' = calls @ ((id_of x, id_of y) # new)" using new(1) by simp
    moreover have "distinct ((id_of x, id_of y) # new)" using new(2,3) by auto
    moreover have "set ((id_of x, id_of y) # new)
        = (\<lambda>y. (id_of x, id_of y)) ` set (y # ys) - dom (div_hash s)"
      using new(3) None by auto
    ultimately show ?thesis by blast
  next
    case (Some u)
    with Cons.prems have run: "compute_div_loop m x ys (acc + u) s calls = (v, s', calls')"
      by simp
    from Cons.IH [OF run] obtain new where
      new: "calls' = calls @ new" "distinct new"
        "set new = (\<lambda>y. (id_of x, id_of y)) ` set ys - dom (div_hash s)"
      by blast
    have "set new = (\<lambda>y. (id_of x, id_of y)) ` set (y # ys) - dom (div_hash s)"
      using new(3) Some by auto
    with new(1,2) show ?thesis by blast
  qed
qed

text \<open>
  C7: when \<open>_compute_div(model, data, x)\<close> has returned, a second call on the learner
  as the first call left it returns the same value, leaves the learner as it is and
  calls \<open>compute_cos_between_examples\<close> for no pair: it is served from the cache alone,
  so much so that the value is the same whichever model the second call is given. The
  first call calls \<open>compute_cos_between_examples\<close> once for every pair \<open>(x.id, y.id)\<close>,
  \<open>y\<close> in \<open>data\<close>, that was not cached before, and for no other pair.
\<close>

theorem compute_div_twice:
  assumes "compute_div m data x s = (v, s', calls)"
  shows "compute_div m' data x s' = (v, s', [])
         \<and> distinct calls
         \<and> set calls = (\<lambda>y. (id_of x, id_of y)) ` set data - dom (div_hash s)"
proof -
  from assms have run: "compute_div_loop m x data 0 s [] = (v, s', calls)"
    by (simp add: compute_div_def)
  have cov: "\<forall>y \<in> set data. div_hash s' (id_of x, id_of y) \<noteq> None"
    using compute_div_loop_covers [OF run] by blast
  have "compute_div m' data x s' = (fold (\<lambda>y a. a + the (div_hash s' (id_of x, id_of y))) data 0, s', [])"
    unfolding compute_div_def by (rule compute_div_loop_cached [OF cov])
  moreover have "v = fold (\<lambda>y a. a + the (div_hash s' (id_of x, id_of y))) data 0"
    by (rule compute_div_loop_value [OF run])
  ultimately have "compute_div m' data x s' = (v, s', [])" by simp
  moreover from compute_div_loop_calls [OF run]
  have "distinct calls \<and> set calls = (\<lambda>y. (id_of x, id_of y)) ` set data - dom (div_hash s)"
    by auto
  ultimately show ?thesis by blast
qed

text \<open>
  Example 9 against a reference set in which example 1 occurs twice. The first call
  computes with a model that answers 3; the second call is given a model that answers 5
  and still returns 9, the sum of the three cached values.
\<close>

theorem compute_div_twice_witness:
  "compute_div (const_model 3) [mk 1 1 10, mk 2 (- 1) 20, mk 1 1 10] (mk 9 1 90) (self ex_new)
     = (9, ex_cached, [(9, 1), (9, 2)])
   \<and> compute_div (const_model 5) [mk 1 1 10, mk 2 (- 1) 20, mk 1 1 10] (mk 9 1 90) ex_cached
     = (9, ex_cached, [])
   \<and> compute_div (const_model 3) [mk 1 1 10, mk 2 (- 1) 20, mk 1 1 10] (mk 9 1 90) ex_cached
     = (9, ex_cached, [])"
proof -
  have run: "compute_div (const_model 3) [mk 1 1 10, mk 2 (- 1) 20, mk 1 1 10] (mk 9 1 90) (self ex_new)
     = (9, ex_cached, [(9, 1), (9, 2)])"
    by (simp add: compute_div_def ex_cached_def ex_new_def init_def mk_def const_model_def Let_def)
  show ?thesis
    using compute_div_twice [OF run, of "const_model 5"] compute_div_twice [OF run, of "const_model 3"] run
    by simp
qed

subsection \<open>Default undersampling (C5)\<close>

text \<open>
  C5, as stated: whenever the majority count \<open>M\<close> of feature space 0 exceeds the minority
  count \<open>m\<close>, \<open>undersample_labeled_datasets()\<close> returns copies from which \<open>M - m\<close> majority
  examples are gone. This fails for \<open>m = 0\<close>: in \<open>ex_majority\<close> two majority examples and no
  minority example are labeled, the removal count \<open>k = 2\<close> fails the guard \<open>k < M\<close>, and
  the copies come back with both examples.
\<close>

theorem undersample_no_minority:
  "number_of_majority_examples (minority ex_env) (hd (labeled_datasets ex_majority)) = 2
   \<and> number_of_minority_examples (minority ex_env) (hd (labeled_datasets ex_majority)) = 0
   \<and> labeled_datasets ex_majority = [[mk 2 (- 1) 20, mk 3 (- 1) 30], [mk 2 (- 1) 21, mk 3 (- 1) 31]]
   \<and> undersample_labeled_datasets ex_env None ex_majority
        = (Inr [[mk 2 (- 1) 20, mk 3 (- 1) 30], [mk 2 (- 1) 21, mk 3 (- 1) 31]], ex_majority)"
  by (simp add: undersample_labeled_datasets_def number_of_majority_examples_def
      number_of_minority_examples_def ex_majority_def ex_new_def init_def ex_pools_def ex_env_def
      label_instances_in_all_datasets_def remove_instances_def add_instances_def mk_def Let_def)

lemma count_by_key:
  assumes "distinct (map f d)"
  shows "length (filter (\<lambda>i. R (f i, g i)) d) = card (fst ` {k \<in> (\<lambda>i. (f i, g i)) ` set d. R k})"
proof -
  have d: "distinct d" and inj: "inj_on f (set d)"
    using assms by (simp_all add: distinct_map)
  have "{i \<in> set d. R (f i, g i)} = {x. R (f x, g x)} \<inter> set d" by auto
  then have "length (filter (\<lambda>i. R (f i, g i)) d) = card {i \<in> set d. R (f i, g i)}"
    using d by (simp add: distinct_length_filter)
  also have "\<dots> = card (f ` {i \<in> set d. R (f i, g i)})"
    by (rule card_image [symmetric]) (rule inj_on_subset [OF inj], auto)
  also have "f ` {i \<in> set d. R (f i, g i)} = fst ` {k \<in> (\<lambda>i. (f i, g i)) ` set d. R k}"
    by force
  finally show ?thesis .
qed

lemma count_same_key:
  assumes "distinct (map f d)" "distinct (map f d')"
    and "(\<lambda>i. (f i, g i)) ` set d = (\<lambda>i. (f i, g i)) ` set d'"
  shows "length (filter (\<lambda>i. R (f i, g i)) d) = length (filter (\<lambda>i. R (f i, g i)) d')"
  using count_by_key [OF assms(1), of R g] count_by_key [OF assms(2), of R g] assms(3) by simp

lemma majority_after_removal:
  assumes d: "distinct (map id_of d0)"
    and p: "distinct picked" "set picked \<subseteq> id_of ` set (filter (\<lambda>i. \<not> mino i) d0)"
  shows "length (filter (\<lambda>i. id_of i \<notin> set picked \<and> \<not> mino i) d0) + length picked
           = length (filter (\<lambda>i. \<not> mino i) d0)"
    and "filter (\<lambda>i. id_of i \<notin> set picked \<and> mino i) d0 = filter mino d0"
proof -
  have dm: "distinct (map id_of (filter (\<lambda>i. \<not> mino i) d0))"
    using d by (rule distinct_map_filter)
  have "length (filter (\<lambda>i. id_of i \<notin> set picked) (filter (\<lambda>i. \<not> mino i) d0)) + length picked
          = length (filter (\<lambda>i. \<not> mino i) d0)"
    by (rule length_filter_not_ids [OF dm p])
  then show "length (filter (\<lambda>i. id_of i \<notin> set picked \<and> \<not> mino i) d0) + length picked
           = length (filter (\<lambda>i. \<not> mino i) d0)"
    by (simp add: conj_commute)
  have inj: "inj_on id_of (set d0)" using d by (simp add: distinct_map)
  have "id_of i \<notin> set picked" if "i \<in> set d0" "mino i" for i
  proof
    assume "id_of i \<in> set picked"
    with p(2) obtain j where j: "j \<in> set d0" "\<not> mino j" "id_of j = id_of i" by auto
    with inj that(1) have "j = i" by (auto dest: inj_onD)
    with j(2) that(2) show False by simp
  qed
  then show "filter (\<lambda>i. id_of i \<notin> set picked \<and> mino i) d0 = filter mino d0"
    by (auto intro: filter_cong)
qed

text \<open>
  C5, amended: the claim holds when moreover \<open>m > 0\<close>. Let the labeled datasets hold each
  identifier once, and the same identifiers with the same classes in every feature space,
  and let the draw of \<open>dataset.undersample\<close> return \<open>M - m\<close> distinct identifiers of
  majority examples of feature space 0. If \<open>0 < m < M\<close>, the call returns the labeled
  datasets without the examples of the drawn identifiers, the same identifiers in every
  feature space; every copy has \<open>M - m\<close> examples less than its original, \<open>m\<close> majority
  and \<open>m\<close> minority examples; and the learner is returned as it was.
\<close>

theorem undersample_default_balances:
  assumes L: "labeled_datasets s = d0 # others"
    and wf: "\<forall>d \<in> set (d0 # others). distinct (get_instance_ids d)
               \<and> (\<lambda>i. (id_of i, minority E i)) ` set d = (\<lambda>i. (id_of i, minority E i)) ` set d0"
    and M: "number_of_majority_examples (minority E) d0 = M"
    and m: "number_of_minority_examples (minority E) d0 = m"
    and pos: "0 < m" and less: "m < M"
    and dr: "draw E (M - m) (get_instance_ids (filter (\<lambda>i. \<not> minority E i) d0)) = picked"
    and p: "distinct picked" "length picked = nat (M - m)"
      "set picked \<subseteq> set (get_instance_ids (filter (\<lambda>i. \<not> minority E i) d0))"
  shows "undersample_labeled_datasets E None s
           = (Inr (map (filter (\<lambda>i. id_of i \<notin> set picked)) (d0 # others)), s)
         \<and> (\<forall>d \<in> set (d0 # others).
               number_of_majority_examples (minority E) (filter (\<lambda>i. id_of i \<notin> set picked) d) = m
               \<and> number_of_minority_examples (minority E) (filter (\<lambda>i. id_of i \<notin> set picked) d) = m
               \<and> length (filter (\<lambda>i. id_of i \<notin> set picked) d) + nat (M - m) = length d)"
proof -
  let ?mino = "minority E"
  have d0: "distinct (map id_of d0)" using wf by (simp add: get_instance_ids_def)
  have psub: "set picked \<subseteq> id_of ` set (filter (\<lambda>i. \<not> ?mino i) d0)"
    using p(3) by (simp add: get_instance_ids_def)
  have ne: "d0 \<noteq> []" using m pos by (auto simp: number_of_minority_examples_def)
  have removed: "id_of ` {x \<in> set d0. id_of x \<in> set picked} = set picked"
    using psub by auto
  have run: "undersample_labeled_datasets E None s
           = (Inr (map (filter (\<lambda>i. id_of i \<notin> set picked)) (d0 # others)), s)"
    using ne pos less
    by (simp add: undersample_labeled_datasets_def L M m undersample_def dr remove_instances_def
        removed Let_def)
  have maj0: "int (length (filter (\<lambda>i. id_of i \<notin> set picked \<and> \<not> ?mino i) d0)) = m"
    using majority_after_removal(1) [OF d0 p(1) psub] M p(2) less
    by (simp add: number_of_majority_examples_def)
  have min0: "int (length (filter (\<lambda>i. id_of i \<notin> set picked \<and> ?mino i) d0)) = m"
    using majority_after_removal(2) [OF d0 p(1) psub] m
    by (simp add: number_of_minority_examples_def)
  have each: "number_of_majority_examples ?mino (filter (\<lambda>i. id_of i \<notin> set picked) d) = m
               \<and> number_of_minority_examples ?mino (filter (\<lambda>i. id_of i \<notin> set picked) d) = m
               \<and> length (filter (\<lambda>i. id_of i \<notin> set picked) d) + nat (M - m) = length d"
    if "d \<in> set (d0 # others)" for d
  proof -
    from wf that have dd: "distinct (map id_of d)"
      and key: "(\<lambda>i. (id_of i, ?mino i)) ` set d = (\<lambda>i. (id_of i, ?mino i)) ` set d0"
      by (auto simp: get_instance_ids_def)
    have a: "length (filter (\<lambda>i. id_of i \<notin> set picked \<and> \<not> ?mino i) d)
              = length (filter (\<lambda>i. id_of i \<notin> set picked \<and> \<not> ?mino i) d0)"
      using count_same_key [OF dd d0 key, of "\<lambda>k. fst k \<notin> set picked \<and> \<not> snd k"] by simp
    have b: "length (filter (\<lambda>i. id_of i \<notin> set picked \<and> ?mino i) d)
              = length (filter (\<lambda>i. id_of i \<notin> set picked \<and> ?mino i) d0)"
      using count_same_key [OF dd d0 key, of "\<lambda>k. fst k \<notin> set picked \<and> snd k"] by simp
    have c: "length (filter (\<lambda>i. id_of i \<in> set picked) d)
              = length (filter (\<lambda>i. id_of i \<in> set picked) d0)"
      using count_same_key [OF dd d0 key, of "\<lambda>k. fst k \<in> set picked"] by simp
    have "length (filter (\<lambda>i. id_of i \<in> set picked) d0) = length picked"
      using psub by (intro length_filter_ids [OF d0 p(1)]) auto
    with c p(2) have "length (filter (\<lambda>i. id_of i \<in> set picked) d) = nat (M - m)" by simp
    then have "length (filter (\<lambda>i. id_of i \<notin> set picked) d) + nat (M - m) = length d"
      using sum_length_filter_compl [of "\<lambda>i. id_of i \<in> set picked" d] by simp
    then show ?thesis
      using a b maj0 min0
      by (simp add: number_of_majority_examples_def number_of_minority_examples_def conj_commute)
  qed
  show ?thesis using run each by blast
qed

text \<open>All four examples labeled: \<open>M = 3\<close>, \<open>m = 1\<close>, the draw takes examples 2 and 3.\<close>

theorem undersample_default_balances_witness:
  "undersample_labeled_datasets ex_env None ex_labeled
     = (Inr [[mk 1 1 10, mk 4 (- 1) 40], [mk 1 1 11, mk 4 (- 1) 41]], ex_labeled)
   \<and> number_of_majority_examples (minority ex_env) (hd (labeled_datasets ex_labeled)) = 3
   \<and> number_of_minority_examples (minority ex_env) (hd (labeled_datasets ex_labeled)) = 1
   \<and> labeled_datasets ex_labeled = ex_pools"
proof -
  have L: "labeled_datasets ex_labeled = hd ex_pools # tl ex_pools"
    by (simp add: ex_labeled_def ex_new_def init_def ex_pools_def label_instances_in_all_datasets_def
        remove_instances_def add_instances_def mk_def Let_def)
  have wf: "\<forall>d \<in> set (hd ex_pools # tl ex_pools). distinct (get_instance_ids d)
               \<and> (\<lambda>i. (id_of i, minority ex_env i)) ` set d
                   = (\<lambda>i. (id_of i, minority ex_env i)) ` set (hd ex_pools)"
    by (simp add: ex_pools_def ex_env_def get_instance_ids_def mk_def)
  have M: "number_of_majority_examples (minority ex_env) (hd ex_pools) = 3"
    by (simp add: number_of_majority_examples_def ex_pools_def ex_env_def mk_def)
  have m: "number_of_minority_examples (minority ex_env) (hd ex_pools) = 1"
    by (simp add: number_of_minority_examples_def ex_pools_def ex_env_def mk_def)
  have dr: "draw ex_env (3 - 1) (get_instance_ids (filter (\<lambda>i. \<not> minority ex_env i) (hd ex_pools))) = [2, 3]"
    by (simp add: ex_pools_def ex_env_def get_instance_ids_def mk_def numeral_eq_Suc)
  have sub: "set [2, 3] \<subseteq> set (get_instance_ids (filter (\<lambda>i. \<not> minority ex_env i) (hd ex_pools)))"
    by (simp add: ex_pools_def ex_env_def get_instance_ids_def mk_def)
  have "undersample_labeled_datasets ex_env None ex_labeled
           = (Inr (map (filter (\<lambda>i. id_of i \<notin> set [2, 3])) (hd ex_pools # tl ex_pools)), ex_labeled)"
    using undersample_default_balances [OF L wf M m _ _ dr _ _ sub] by simp
  then show ?thesis using L M m by (simp add: ex_pools_def mk_def)
qed

subsection \<open>The lockstep invariant (C6)\<close>

lemma ids_equal_iff:
  "ids_equal ds \<longleftrightarrow> (\<exists>A. \<forall>x \<in> set (map get_instance_ids ds). set x = A)"
proof
  assume eq: "ids_equal ds"
  show "\<exists>A. \<forall>x \<in> set (map get_instance_ids ds). set x = A"
  proof (cases ds)
    case Nil
    then show ?thesis by simp
  next
    case (Cons d ds')
    have "set (get_instance_ids e) = set (get_instance_ids (ds ! 0))" if "e \<in> set ds" for e
    proof -
      from that obtain i where i: "i < length ds" "e = ds ! i" by (auto simp: in_set_conv_nth)
      have "0 < length ds" using Cons by simp
      with eq i(1) have "set (get_instance_ids (ds ! i)) = set (get_instance_ids (ds ! 0))"
        unfolding ids_equal_def by blast
      then show ?thesis using i(2) by simp
    qed
    then show ?thesis by auto
  qed
next
  assume "\<exists>A. \<forall>x \<in> set (map get_instance_ids ds). set x = A"
  then obtain A where "\<And>d. d \<in> set ds \<Longrightarrow> set (get_instance_ids d) = A" by auto
  then show "ids_equal ds" unfolding ids_equal_def by (simp add: nth_mem)
qed

lemma ids_equalI: "(\<And>d. d \<in> set ds \<Longrightarrow> set (get_instance_ids d) = A) \<Longrightarrow> ids_equal ds"
  unfolding ids_equal_iff by auto

lemma ids_equalD:
  "ids_equal ds \<Longrightarrow> \<exists>A. \<forall>d \<in> set ds. set (get_instance_ids d) = A"
  unfolding ids_equal_iff by simp

lemma ids_equal_cong:
  "map get_instance_ids ds' = map get_instance_ids ds \<Longrightarrow> ids_equal ds' = ids_equal ds"
  by (simp add: ids_equal_iff)

lemma lockstep_cong:
  "unlabeled_datasets s' = unlabeled_datasets s \<Longrightarrow> labeled_datasets s' = labeled_datasets s \<Longrightarrow>
   lockstep s' = lockstep s"
  by (simp add: lockstep_def)

lemma ids_filter_out:
  "set (get_instance_ids (filter (\<lambda>i. id_of i \<notin> set ids) d)) = set (get_instance_ids d) - set ids"
  by (auto simp: get_instance_ids_def)

lemma ids_append_filter_in:
  "set (get_instance_ids (l @ filter (\<lambda>i. id_of i \<in> set ids) u))
     = set (get_instance_ids l) \<union> (set (get_instance_ids u) \<inter> set ids)"
  by (auto simp: get_instance_ids_def)

text \<open>Moving the examples with the given identifiers from the datasets \<open>A\<close> to the datasets \<open>B\<close>.\<close>

lemma move_keeps_ids_equal:
  assumes "ids_equal A" "ids_equal B"
  shows "ids_equal (map (filter (\<lambda>i. id_of i \<notin> set ids)) A)"
    and "ids_equal (map (\<lambda>(a, b). b @ filter (\<lambda>i. id_of i \<in> set ids) a) (zip A B))"
proof -
  from ids_equalD [OF assms(1)]
  obtain IA where IA: "\<And>d. d \<in> set A \<Longrightarrow> set (get_instance_ids d) = IA"
    by blast
  from ids_equalD [OF assms(2)]
  obtain IB where IB: "\<And>d. d \<in> set B \<Longrightarrow> set (get_instance_ids d) = IB"
    by blast
  show "ids_equal (map (filter (\<lambda>i. id_of i \<notin> set ids)) A)"
  proof (rule ids_equalI)
    fix d assume "d \<in> set (map (filter (\<lambda>i. id_of i \<notin> set ids)) A)"
    then obtain a where "a \<in> set A" "d = filter (\<lambda>i. id_of i \<notin> set ids) a" by auto
    then show "set (get_instance_ids d) = IA - set ids" using IA by (simp add: ids_filter_out)
  qed
  show "ids_equal (map (\<lambda>(a, b). b @ filter (\<lambda>i. id_of i \<in> set ids) a) (zip A B))"
  proof (rule ids_equalI)
    fix d assume "d \<in> set (map (\<lambda>(a, b). b @ filter (\<lambda>i. id_of i \<in> set ids) a) (zip A B))"
    then obtain a b where ab: "(a, b) \<in> set (zip A B)" "d = b @ filter (\<lambda>i. id_of i \<in> set ids) a"
      by auto
    from ab(1) have "a \<in> set A" "b \<in> set B" by (auto dest: set_zip_leftD set_zip_rightD)
    then show "set (get_instance_ids d) = IB \<union> (IA \<inter> set ids)"
      using IA IB ab(2) by (simp add: ids_append_filter_in)
  qed
qed

lemma label_instances_lockstep:
  assumes "lockstep s"
  shows "lockstep (label_instances_in_all_datasets ids s)"
proof -
  from assms have len: "length (labeled_datasets s) = length (unlabeled_datasets s)"
    and eqs: "ids_equal (unlabeled_datasets s)" "ids_equal (labeled_datasets s)"
    by (simp_all add: lockstep_def)
  show ?thesis
    unfolding label_instances_eq [OF len] lockstep_def
    using len move_keeps_ids_equal [OF eqs] by simp
qed

lemma label_all_data_lockstep: "lockstep s \<Longrightarrow> lockstep (snd (label_all_data s))"
  by (cases "unlabeled_datasets s") (simp_all add: label_all_data_def label_instances_lockstep)

lemma pick_balanced_lockstep:
  "lockstep s \<Longrightarrow> lockstep (snd (pick_balanced_initial_training_set E k s))"
  by (simp add: pick_balanced_initial_training_set_def label_instances_lockstep Let_def
      split: list.splits sum.splits)

lemma ids_revert: "get_instance_ids (d[i := revert (d ! i)]) = get_instance_ids d"
proof -
  have "map id_of (d[i := revert (d ! i)]) = (map id_of d)[i := id_of (revert (d ! i))]"
    by (rule map_update)
  also have "\<dots> = map id_of d"
    by (cases "i < length d") (simp_all add: revert_def list_update_same_conv list_update_beyond)
  finally show ?thesis by (simp add: get_instance_ids_def)
qed

lemma revert_at_ids:
  "map get_instance_ids (snd (revert_at i ds)) = map get_instance_ids ds"
  by (induction ds) (auto simp: ids_revert split: prod.splits)

lemma revert_loop_ids:
  "map get_instance_ids (snd (revert_loop ids d0 is L)) = map get_instance_ids L"
proof (induction "is" arbitrary: L)
  case Nil
  then show ?case by simp
next
  case (Cons i "is")
  show ?case
  proof (cases "id_of (d0 ! i) \<in> set ids")
    case False
    then show ?thesis using Cons.IH by simp
  next
    case True
    obtain e L' where r: "revert_at i L = (e, L')" by (cases "revert_at i L")
    have L': "map get_instance_ids L' = map get_instance_ids L"
      using revert_at_ids [of i L] r by simp
    show ?thesis
    proof (cases e)
      case None
      then show ?thesis using True r L' Cons.IH [of L'] by simp
    next
      case (Some err)
      then show ?thesis using True r L' by simp
    qed
  qed
qed

lemma map_zip_fst_only:
  "length U = length L \<Longrightarrow> map (\<lambda>(u, l). F u) (zip U L) = map F U"
  by (induction U L rule: list_induct2) simp_all

lemma map_zip_snd_only:
  "length U = length L \<Longrightarrow> map (\<lambda>(u, l). G l) (zip U L) = map G L"
  by (induction U L rule: list_induct2) simp_all

lemma map_zip_swap:
  "map (\<lambda>(u, l). F u l) (zip U L) = map (\<lambda>(l, u). F u l) (zip L U)"
proof (induction U arbitrary: L)
  case Nil
  then show ?case by simp
next
  case (Cons u U)
  then show ?case by (cases L) simp_all
qed

lemma unlabel_fst:
  "map fst (map (\<lambda>(u, l). (F u l, G l)) (zip U L)) = map (\<lambda>(l, u). F u l) (zip L U)"
proof (induction U arbitrary: L)
  case Nil
  then show ?case by simp
next
  case (Cons u U)
  then show ?case by (cases L) simp_all
qed

lemma unlabel_snd:
  "length U = length L \<Longrightarrow> map snd (map (\<lambda>(u, l). (F u l, G l)) (zip U L)) = map G L"
  by (induction U L rule: list_induct2) simp_all

lemma unlabel_instances_lockstep:
  assumes "lockstep s"
  shows "lockstep (snd (unlabel_instances ids s))"
proof (cases "labeled_datasets s")
  case Nil
  then show ?thesis using assms by (simp add: unlabel_instances_def)
next
  case (Cons d0 rest)
  let ?U = "unlabeled_datasets s" and ?L = "labeled_datasets s"
  from assms have len: "length ?U = length ?L"
    and eqs: "ids_equal ?L" "ids_equal ?U"
    by (simp_all add: lockstep_def)
  obtain e L' where r: "revert_loop ids d0 [0 ..< length d0] ?L = (e, L')"
    by (cases "revert_loop ids d0 [0 ..< length d0] ?L")
  have idsL': "map get_instance_ids L' = map get_instance_ids ?L"
    using revert_loop_ids [of ids d0 "[0 ..< length d0]" ?L] r by simp
  then have lenL': "length L' = length ?L" by (rule map_eq_imp_length_eq)
  have eqL': "ids_equal L'" using eqs(1) ids_equal_cong [OF idsL'] by simp
  show ?thesis
  proof (cases e)
    case (Some err)
    have "snd (unlabel_instances ids s) = s\<lparr> labeled_datasets := L' \<rparr>"
      using Cons len r Some by (simp add: unlabel_instances_def)
    then show ?thesis using len lenL' eqL' eqs(2) by (simp add: lockstep_def)
  next
    case None
    have fst_part: "map fst (map (\<lambda>(u, l). (add_instances (fst (remove_instances ids l)) u,
                                              snd (remove_instances ids l))) (zip ?U L'))
        = map (\<lambda>(l, u). u @ filter (\<lambda>i. id_of i \<in> set ids) l) (zip L' ?U)"
      unfolding remove_instances_def add_instances_def fst_conv snd_conv
      by (rule unlabel_fst)
    have snd_part: "map snd (map (\<lambda>(u, l). (add_instances (fst (remove_instances ids l)) u,
                                              snd (remove_instances ids l))) (zip ?U L'))
        = map (filter (\<lambda>i. id_of i \<notin> set ids)) L'"
      unfolding remove_instances_def add_instances_def fst_conv snd_conv
      by (rule unlabel_snd) (simp add: len lenL')
    have "snd (unlabel_instances ids s)
        = s\<lparr> unlabeled_datasets := map (\<lambda>(l, u). u @ filter (\<lambda>i. id_of i \<in> set ids) l) (zip L' ?U),
              labeled_datasets := map (filter (\<lambda>i. id_of i \<notin> set ids)) L' \<rparr>"
      using Cons len lenL' r None fst_part snd_part
      by (simp add: unlabel_instances_def Let_def)
    then show ?thesis
      using len lenL' move_keeps_ids_equal [OF eqL' eqs(2), of ids]
      by (simp add: lockstep_def)
  qed
qed


lemma rebuild_models_partitions:
  "unlabeled_datasets (snd (rebuild_models E uf s)) = unlabeled_datasets s
   \<and> labeled_datasets (snd (rebuild_models E uf s)) = labeled_datasets s"
  by (auto simp: rebuild_models_def undersample_labeled_datasets_def Let_def
      split: list.splits sum.splits prod.splits)

lemma rebuild_models_lockstep: "lockstep (snd (rebuild_models E uf s)) = lockstep s"
  by (rule lockstep_cong) (simp_all add: rebuild_models_partitions)

lemma active_learn_body_lockstep:
  assumes qf: "\<And>t k r t'. lockstep t \<Longrightarrow> qf t k = (r, t') \<Longrightarrow> lockstep t'"
    and s: "lockstep s"
  shows "lockstep (fst (snd (active_learn_body E qf b flag s tr)))"
proof -
  obtain r s1 where q: "qf s b = (r, s1)" by (cases "qf s b")
  have s1: "lockstep s1" by (rule qf [OF s q])
  show ?thesis
  proof (cases r)
    case (Inl e)
    then show ?thesis using q s1 by (simp add: active_learn_body_def)
  next
    case (Inr ids)
    define s2 where "s2 = (case ids of Some (i # is) \<Rightarrow> label_instances_in_all_datasets (i # is) s1 | _ \<Rightarrow> s1)"
    define tr2 where "tr2 = (case ids of Some (i # is) \<Rightarrow> tr @ [Query b, Label (i # is)] | _ \<Rightarrow> tr @ [Query b])"
    have split: "(case ids of Some (i # is) \<Rightarrow> (label_instances_in_all_datasets (i # is) s1, tr @ [Query b, Label (i # is)])
                 | _ \<Rightarrow> (s1, tr @ [Query b])) = (s2, tr2)"
      by (simp add: s2_def tr2_def split: option.splits list.splits)
    have s2: "lockstep s2"
      using s1 by (simp add: s2_def label_instances_lockstep split: option.splits list.splits)
    obtain r3 s3 where rb: "rebuild_models E False s2 = (r3, s3)" by (cases "rebuild_models E False s2")
    have s3: "lockstep s3" using rebuild_models_lockstep [of E False s2] rb s2 by simp
    show ?thesis
      using s2 s3
      by (simp add: active_learn_body_def q Inr split rb split: sum.splits list.splits)
  qed
qed

lemma active_learn_loop_lockstep_aux:
  "active_learn_loop E qf N b flag c s tr = Some y \<Longrightarrow>
   (\<forall>t k r t'. lockstep t \<longrightarrow> qf t k = (r, t') \<longrightarrow> lockstep t') \<longrightarrow>
   lockstep s \<longrightarrow> lockstep (fst (snd y))"
proof (rule active_learn_loop.raw_induct
    [where P = "\<lambda>E qf N b flag c s tr y.
       (\<forall>t k r t'. lockstep t \<longrightarrow> qf t k = (r, t') \<longrightarrow> lockstep t') \<longrightarrow>
       lockstep s \<longrightarrow> lockstep (fst (snd y))"])
  fix loop :: "('a, 'b, 'c) env \<Rightarrow> ('a, 'b, 'c) query_function \<Rightarrow> int \<Rightarrow> int \<Rightarrow> bool \<Rightarrow> int
      \<Rightarrow> ('a, 'b, 'c) learner \<Rightarrow> event list \<Rightarrow> ((error + unit) \<times> ('a, 'b, 'c) learner \<times> event list) option"
    and E qf N b flag c s tr y
  assume IH: "\<And>E qf N b flag c s tr y. loop E qf N b flag c s tr = Some y \<Longrightarrow>
      (\<forall>t k r t'. lockstep t \<longrightarrow> qf t k = (r, t') \<longrightarrow> lockstep t') \<longrightarrow>
      lockstep s \<longrightarrow> lockstep (fst (snd y))"
    and eq: "(if c < N
              then case active_learn_body E qf b flag s tr of
                     (Inl e, s', tr') \<Rightarrow> Some (Inl e, s', tr')
                   | (Inr x, s', tr') \<Rightarrow> loop E qf N b flag (c + b) s' tr'
              else Some (Inr (), s, tr)) = Some y"
  show "(\<forall>t k r t'. lockstep t \<longrightarrow> qf t k = (r, t') \<longrightarrow> lockstep t') \<longrightarrow>
      lockstep s \<longrightarrow> lockstep (fst (snd y))"
  proof (intro impI)
    assume qf: "\<forall>t k r t'. lockstep t \<longrightarrow> qf t k = (r, t') \<longrightarrow> lockstep t'" and s: "lockstep s"
    show "lockstep (fst (snd y))"
    proof (cases "c < N")
      case False
      with eq s show ?thesis by auto
    next
      case True
      obtain r s' tr' where body: "active_learn_body E qf b flag s tr = (r, s', tr')"
        by (cases "active_learn_body E qf b flag s tr") auto
      have "lockstep (fst (snd (active_learn_body E qf b flag s tr)))"
      proof (rule active_learn_body_lockstep [where qf = qf])
        show "\<And>t k r t'. lockstep t \<Longrightarrow> qf t k = (r, t') \<Longrightarrow> lockstep t'" using qf by blast
        show "lockstep s" by (rule s)
      qed
      then have s': "lockstep s'" using body by simp
      show ?thesis
      proof (cases r)
        case (Inl e)
        with eq True body s' show ?thesis by auto
      next
        case (Inr u)
        with eq True body have "loop E qf N b flag (c + b) s' tr' = Some y" by simp
        from IH [OF this] qf s' show ?thesis by blast
      qed
    qed
  qed
next
  assume "active_learn_loop E qf N b flag c s tr = Some y"
  then show "active_learn_loop E qf N b flag c s tr = Some y" .
qed

lemma active_learn_loop_lockstep:
  assumes "active_learn_loop E qf N b flag c s tr = Some y"
    and "\<And>t k r t'. lockstep t \<Longrightarrow> qf t k = (r, t') \<Longrightarrow> lockstep t'"
    and "lockstep s"
  shows "lockstep (fst (snd y))"
proof -
  have "\<forall>t k r t'. lockstep t \<longrightarrow> qf t k = (r, t') \<longrightarrow> lockstep t'"
    using assms(2) by blast
  with active_learn_loop_lockstep_aux [OF assms(1)] assms(3) show ?thesis by blast
qed

lemma active_learn_lockstep:
  assumes "active_learn E \<lparr> self = s, query_function = qf \<rparr> N b flag = Some (r, s', tr)"
    and qf: "\<And>t k r t'. lockstep t \<Longrightarrow> qf t k = (r, t') \<Longrightarrow> lockstep t'"
    and s: "lockstep s"
  shows "lockstep s'"
proof -
  from assms(1) obtain y where loop: "active_learn_loop E qf N b flag 0 s [] = Some y"
    by (auto simp: active_learn_def split: option.splits)
  have y: "lockstep (fst (snd y))"
    by (rule active_learn_loop_lockstep [where qf = qf, OF loop qf s])
  obtain r1 s1 tr1 where yy: "y = (r1, s1, tr1)" by (cases y) auto
  show ?thesis
  proof (cases r1)
    case (Inl e)
    with assms(1) loop yy y show ?thesis by (simp add: active_learn_def)
  next
    case (Inr u)
    with assms(1) loop yy have "s' = snd (rebuild_models E False s1)"
      by (auto simp: active_learn_def split: prod.splits)
    then show ?thesis using y yy rebuild_models_lockstep [of E False s1] by simp
  qed
qed

lemma mutation_lockstep:
  assumes "mutation E qf s s'"
    and qf: "\<And>t k r t'. lockstep t \<Longrightarrow> qf t k = (r, t') \<Longrightarrow> lockstep t'"
    and s: "lockstep s"
  shows "lockstep s'"
  using assms(1)
proof cases
  case (by_label inst_ids)
  then show ?thesis using s by (simp add: label_instances_lockstep)
next
  case by_label_all
  then show ?thesis using s by (simp add: label_all_data_lockstep)
next
  case (by_unlabel inst_ids)
  then show ?thesis using s by (simp add: unlabel_instances_lockstep)
next
  case (by_active_learn N b flag r tr)
  show ?thesis
    by (rule active_learn_lockstep [where qf = qf and s = s, OF by_active_learn qf s])
next
  case (by_pick k)
  then show ?thesis using s by (simp add: pick_balanced_lockstep)
qed

text \<open>
  C6: from a learner in lockstep, every learner reached by calls of
  \<open>label_instances_in_all_datasets\<close>, \<open>label_all_data\<close>, \<open>unlabel_instances\<close>,
  \<open>active_learn\<close> and \<open>pick_balanced_initial_training_set\<close> is in lockstep: for all
  feature-space pairs the labeled datasets hold the same identifier sets, and so do the
  unlabeled ones. The query function that \<open>active_learn\<close> calls is code outside the
  learner; it is taken to keep the invariant itself.
\<close>

theorem lockstep_invariant:
  assumes reach: "(mutation E qf)\<^sup>*\<^sup>* s0 s"
    and init: "lockstep s0"
    and qf: "\<And>t k r t'. lockstep t \<Longrightarrow> qf t k = (r, t') \<Longrightarrow> lockstep t'"
  shows "lockstep s"
  using reach
proof (induction rule: rtranclp_induct)
  case base
  show ?case by (rule init)
next
  case (step s1 s2)
  show ?case by (rule mutation_lockstep [where qf = qf, OF step.hyps(2) qf step.IH])
qed

text \<open>
  From the new learner: \<open>active_learn(3, 2, False)\<close> with \<open>first_k\<close>, then
  \<open>unlabel_instances([2])\<close>.
\<close>

lemma first_k_lockstep: "lockstep t \<Longrightarrow> first_k t k = (r, t') \<Longrightarrow> lockstep t'"
  by (auto simp: first_k_def split: list.splits)

lemma ex_new_lockstep: "lockstep (self ex_new)"
  by (simp add: lockstep_def ids_equal_iff ex_new_def init_def ex_pools_def get_instance_ids_def mk_def)

theorem lockstep_invariant_witness:
  "lockstep (snd (unlabel_instances [2] ex_learned))
   \<and> map get_instance_ids (unlabeled_datasets (snd (unlabel_instances [2] ex_learned))) = [[2], [2]]
   \<and> map get_instance_ids (labeled_datasets (snd (unlabel_instances [2] ex_learned)))
       = [[1, 3, 4], [1, 3, 4]]"
proof -
  have obj: "\<lparr> self = self ex_new, query_function = first_k \<rparr> = ex_first"
    by (simp add: ex_first_def ex_new_def init_def)
  have "active_learn ex_env \<lparr> self = self ex_new, query_function = first_k \<rparr> 3 2 False
          = Some (Inr (), ex_learned, [Query 2, Label [1, 2], Query 2, Label [3, 4], Rebuild])"
    unfolding obj ex_learned_def by (rule ex_first_run)
  then have step1: "mutation ex_env first_k (self ex_new) ex_learned"
    by (rule mutation.by_active_learn)
  have step2: "mutation ex_env first_k ex_learned (snd (unlabel_instances [2] ex_learned))"
    by (rule mutation.by_unlabel)
  have reach: "(mutation ex_env first_k)\<^sup>*\<^sup>* (self ex_new) (snd (unlabel_instances [2] ex_learned))"
    using step1 step2 by (rule rtranclp.rtrancl_into_rtrancl [OF r_into_rtranclp])
  have "lockstep (snd (unlabel_instances [2] ex_learned))"
    using lockstep_invariant [OF reach ex_new_lockstep first_k_lockstep] .
  moreover have "map get_instance_ids (unlabeled_datasets (snd (unlabel_instances [2] ex_learned))) = [[2], [2]]
    \<and> map get_instance_ids (labeled_datasets (snd (unlabel_instances [2] ex_learned))) = [[1, 3, 4], [1, 3, 4]]"
    by (simp add: unlabel_instances_def ex_learned_def ex_new_def init_def ex_pools_def
        remove_instances_def add_instances_def get_instance_ids_def mk_def revert_def Let_def
        upt_rec [of 0] numeral_eq_Suc)
  ultimately show ?thesis by simp
qed

end
